theory Spec2Isabelle
  imports Complex_Main
begin

section \<open>Numbers and optional properties\<close>

text \<open>
  The simulation core of the game lives in \<^verbatim>\<open>src/script.js\<close>. Every JavaScript number
  is modelled as a real number: the development reasons about the arithmetic the code
  writes down, not about IEEE rounding, NaN or infinities. A property that may be absent on
  a JavaScript object (\<^verbatim>\<open>undefined\<close>) is an \<open>option\<close>.
\<close>

type_synonym num = real

text \<open>\<^verbatim>\<open>v || d\<close> on an optional number: \<^verbatim>\<open>undefined\<close> and \<^verbatim>\<open>0\<close> are falsy.\<close>

definition or_default :: "num option \<Rightarrow> num \<Rightarrow> num" where
  "or_default v d = (case v of None \<Rightarrow> d | Some a \<Rightarrow> if a = 0 then d else a)"

text \<open>\<^verbatim>\<open>!v\<close> on an optional number.\<close>

definition falsy :: "num option \<Rightarrow> bool" where
  "falsy v = (case v of None \<Rightarrow> True | Some a \<Rightarrow> a = 0)"

text \<open>\<^verbatim>\<open>v > 0\<close> on an optional number: a comparison with \<^verbatim>\<open>undefined\<close> is false.\<close>

definition positive :: "num option \<Rightarrow> bool" where
  "positive v = (case v of None \<Rightarrow> False | Some a \<Rightarrow> a > 0)"

section \<open>Settings, input and geometry\<close>

text \<open>
  \<^verbatim>\<open>defaultSettings\<close> (script.js 15-30) and the \<^verbatim>\<open>settings\<close> object of a level have the
  same shape; a level's settings start as a copy of the defaults. \<^verbatim>\<open>fallDamage\<close> and
  \<^verbatim>\<open>mpRegen\<close> are read with a fallback in \<^verbatim>\<open>Player.update\<close>, so they are optional here.
\<close>

record settings =
  gravity :: num
  friction :: num
  jumpForce :: num
  speed :: num
  maxFallSpeed :: num
  fastFallSpeed :: num
  gridSize :: num
  worldWidth :: num
  worldHeight :: num
  playerMaxHp :: num
  playerMaxMp :: num
  platformCost :: num
  fallDamage :: "num option"
  mpRegen :: "num option"

text \<open>The initial value of \<^verbatim>\<open>defaultSettings\<close>, for a window of the given size.\<close>

definition defaultSettings :: "num \<Rightarrow> num \<Rightarrow> settings" where
  "defaultSettings innerWidth innerHeight =
     \<lparr> gravity = 4/10, friction = 85/100, jumpForce = -11, speed = 4,
       maxFallSpeed = 9, fastFallSpeed = 15, gridSize = 25,
       worldWidth = innerWidth, worldHeight = innerHeight,
       playerMaxHp = 100, playerMaxMp = 100, platformCost = 10,
       fallDamage = Some 20, mpRegen = Some (1/10) \<rparr>"

text \<open>The polled keyboard state \<^verbatim>\<open>keys\<close>, restricted to the codes the body reads.\<close>

record keys =
  KeyA :: bool
  KeyD :: bool
  KeyW :: bool
  KeyS :: bool
  Space :: bool
  ShiftLeft :: bool
  ShiftRight :: bool

text \<open>
  Platforms and traps share the motion-script properties and are both passed to
  \<^verbatim>\<open>applyMovement\<close>, so one record stands for both. For a platform \<open>(ob_x, ob_y)\<close> is its
  top-left corner; for a trap it is its centre. The code tells a laser from every other
  trap by \<^verbatim>\<open>trap.type === 'laser'\<close>; \<open>Spikes\<close> stands for every other type.
\<close>

datatype trap_type = Spikes | Laser

record sobj =
  ob_x :: num
  ob_y :: num
  ob_width :: num
  ob_height :: num
  ob_speed :: "num option"
  ob_tx :: "num option"
  ob_ty :: "num option"
  oscX :: "num option"
  oscY :: "num option"
  oscSpeed :: "num option"
  baseX :: "num option"
  baseY :: "num option"
  startX :: "num option"
  startY :: "num option"
  movingForward :: "bool option"
  oscTime :: "num option"
  rotation :: "int option"
  scale :: "num option"
  damage :: "num option"
  dormant :: bool
  ob_type :: trap_type

record jumppad =
  jp_x :: num
  jp_y :: num
  jp_width :: num
  jp_jumpForce :: "num option"

record spawn_point =
  sp_x :: num
  sp_y :: num

section \<open>The kinematic body\<close>

record player =
  pl_x :: num
  pl_y :: num
  pl_width :: num
  pl_height :: num
  vx :: num
  vy :: num
  grounded :: bool
  jumpLocked :: bool
  trail :: "(num \<times> num \<times> bool) list"
  maxHp :: num
  hp :: num
  maxMp :: num
  mp :: num
  defense :: num
  invulnerable :: bool
  invulnerableTimer :: num
  extraJumps :: num
  jumpsRemaining :: num
  extraDashes :: num
  dashesRemaining :: num
  dashCooldown :: num
  isDashing :: bool
  dashTimer :: num
  lastDirection :: num
  wallClimbLevel :: num
  lastTouchingWall :: num
  wallJumpTimer :: num
  isWallSliding :: bool
  isWallClimbing :: bool
  dashSpeedMult :: "num option"
  doubleJumpMult :: "num option"

text \<open>
  \<^verbatim>\<open>Player.takeDamage\<close> (script.js 223-255), as far as the body goes. The camera shake,
  the particles and the log line are left out; the deferred \<^verbatim>\<open>game.gameOver()\<close> call of
  lines 243-253 does not touch the body and is added by \<open>damage_player\<close> below.
\<close>

definition takeDamage :: "num \<Rightarrow> player \<Rightarrow> player" where
  "takeDamage amount p =
     (if invulnerable p then p
      else
        let dmg = amount - defense p;
            dmg = (if dmg < 0 then 0 else dmg);
            h = hp p - dmg;
            h = (if h < 0 then 0 else h)
        in p\<lparr>hp := h, invulnerable := True, invulnerableTimer := 30\<rparr>)"

text \<open>\<^verbatim>\<open>Player.consumeMp\<close> (script.js 257-263); its boolean result is ignored by the caller.\<close>

definition consumeMp :: "num \<Rightarrow> player \<Rightarrow> player" where
  "consumeMp amount p = (if mp p \<ge> amount then p\<lparr>mp := mp p - amount\<rparr> else p)"

subsection \<open>The sections of \<^verbatim>\<open>Player.update\<close>, in source order\<close>

text \<open>Lines 308-311: the ghosting trail, at most 12 entries.\<close>

definition record_trail :: "player \<Rightarrow> player" where
  "record_trail p =
     (let t = (pl_x p, pl_y p, isDashing p) # trail p
      in p\<lparr>trail := (if length t > 12 then butlast t else t)\<rparr>)"

text \<open>Lines 313-316: the invulnerability countdown, one unit per call.\<close>

definition tick_invulnerable :: "player \<Rightarrow> player" where
  "tick_invulnerable p =
     (if invulnerable p then
        let p1 = p\<lparr>invulnerableTimer := invulnerableTimer p - 1\<rparr>
        in (if invulnerableTimer p1 \<le> 0 then p1\<lparr>invulnerable := False\<rparr> else p1)
      else p)"

text \<open>Lines 318-323: dash cooldown and dash timer.\<close>

definition tick_dash :: "num \<Rightarrow> player \<Rightarrow> player" where
  "tick_dash dt p =
     (let p1 = (if dashCooldown p > 0 then p\<lparr>dashCooldown := dashCooldown p - dt\<rparr> else p)
      in if isDashing p1 then
           let p2 = p1\<lparr>dashTimer := dashTimer p1 - dt\<rparr>
           in (if dashTimer p2 \<le> 0 then p2\<lparr>isDashing := False\<rparr> else p2)
         else p1)"

text \<open>Lines 325-328: the physics constants of this tick, read from \<^verbatim>\<open>defaultSettings\<close>.\<close>

definition tick_speed :: "settings \<Rightarrow> player \<Rightarrow> num" where
  "tick_speed ds p =
     (if isDashing p then speed ds * or_default (dashSpeedMult p) 4 else speed ds)"

definition tick_gravity :: "settings \<Rightarrow> player \<Rightarrow> num" where
  "tick_gravity ds p = (if isDashing p then 0 else gravity ds)"

text \<open>Lines 330-335: mana regeneration.\<close>

definition regen_mp :: "settings \<Rightarrow> num \<Rightarrow> player \<Rightarrow> player" where
  "regen_mp ls dt p =
     (let regenRate = (case mpRegen ls of Some r \<Rightarrow> r | None \<Rightarrow> 1/10)
      in if mp p < maxMp p then
           let p1 = p\<lparr>mp := mp p + regenRate * dt\<rparr>
           in (if mp p1 > maxMp p1 then p1\<lparr>mp := maxMp p1\<rparr> else p1)
         else p)"

text \<open>Lines 337-361: horizontal input.\<close>

definition horizontal_input :: "settings \<Rightarrow> keys \<Rightarrow> num \<Rightarrow> num \<Rightarrow> player \<Rightarrow> player" where
  "horizontal_input ds k spd dt p =
     (if \<not> isDashing p then
        (if wallJumpTimer p > 0 then p\<lparr>wallJumpTimer := wallJumpTimer p - dt\<rparr>
         else if KeyA k then p\<lparr>vx := - spd, lastDirection := -1\<rparr>
         else if KeyD k then p\<lparr>vx := spd, lastDirection := 1\<rparr>
         else
           let p1 = p\<lparr>vx := vx p * friction ds\<rparr>
           in (if \<bar>vx p1\<bar> < 1/10 then p1\<lparr>vx := 0\<rparr> else p1))
      else p\<lparr>vx := spd * lastDirection p, vy := 0\<rparr>)"

text \<open>Lines 363-370: the dash skill.\<close>

definition dash_skill :: "keys \<Rightarrow> player \<Rightarrow> player" where
  "dash_skill k p =
     (if extraDashes p > 0 \<and> (ShiftLeft k \<or> ShiftRight k) \<and> dashCooldown p \<le> 0
         \<and> \<not> isDashing p \<and> dashesRemaining p > 0
      then p\<lparr>dashesRemaining := dashesRemaining p - 1, isDashing := True,
              dashTimer := 2/10, dashCooldown := 6/10\<rparr>
      else p)"

text \<open>
  Lines 372-450: wall slide, wall climb, wall jump, jump and double jump. The first
  definition is the wall block and returns \<^verbatim>\<open>didWallJump\<close> with the body.
\<close>

definition wall_logic :: "keys \<Rightarrow> num \<Rightarrow> num \<Rightarrow> num \<Rightarrow> player \<Rightarrow> bool \<times> player" where
  "wall_logic k spd jf dt p0 =
     (let jumpInput = (KeyW k \<or> Space k);
          justJumped = (jumpInput \<and> \<not> jumpLocked p0);
          p = p0\<lparr>isWallSliding := False, isWallClimbing := False\<rparr>
      in if wallClimbLevel p > 0 \<and> \<not> grounded p \<and> lastTouchingWall p \<noteq> 0 then
           let holdingIntoWall = ((lastTouchingWall p = -1 \<and> KeyA k) \<or> (lastTouchingWall p = 1 \<and> KeyD k));
               holdingAwayFromWall = ((lastTouchingWall p = -1 \<and> KeyD k) \<or> (lastTouchingWall p = 1 \<and> KeyA k))
           in if holdingIntoWall then
                let p1 = p\<lparr>isWallSliding := True\<rparr>;
                    canClimb = (wallClimbLevel p1 \<ge> 2 \<or> mp p1 > 0)
                in if jumpInput \<and> canClimb then
                     let p2 = p1\<lparr>isWallClimbing := True, vy := - spd * (8/10)\<rparr>
                     in (False, if wallClimbLevel p2 < 2 then consumeMp (1 * dt) p2 else p2)
                   else (False, if vy p1 > 15/10 then p1\<lparr>vy := 15/10\<rparr> else p1)
              else if justJumped \<and> holdingAwayFromWall then
                (True, p\<lparr>vy := jf,
                         vx := (if lastTouchingWall p = -1 then spd * (15/10) else - spd * (15/10)),
                         wallJumpTimer := 2/10, jumpLocked := True,
                         jumpsRemaining := extraJumps p, dashesRemaining := extraDashes p,
                         lastTouchingWall := 0\<rparr>)
              else (False, p)
         else (False, p))"

definition jump_logic :: "keys \<Rightarrow> num \<Rightarrow> num \<Rightarrow> num \<Rightarrow> player \<Rightarrow> player" where
  "jump_logic k spd jf dt p0 =
     (let jumpInput = (KeyW k \<or> Space k);
          (didWallJump, p) = wall_logic k spd jf dt p0
      in if jumpInput \<and> \<not> didWallJump then
           (if grounded p \<and> \<not> jumpLocked p then
              p\<lparr>vy := jf, grounded := False, jumpLocked := True,
                jumpsRemaining := extraJumps p, dashesRemaining := extraDashes p\<rparr>
            else if \<not> grounded p \<and> \<not> jumpLocked p \<and> jumpsRemaining p > 0 \<and> \<not> isWallSliding p then
              p\<lparr>vy := jf * or_default (doubleJumpMult p) 1,
                jumpsRemaining := jumpsRemaining p - 1, jumpLocked := True\<rparr>
            else p)
         else if \<not> jumpInput then p\<lparr>jumpLocked := False\<rparr>
         else p)"

text \<open>Lines 452-458: gravity and the fall-speed cap.\<close>

definition apply_gravity :: "settings \<Rightarrow> keys \<Rightarrow> num \<Rightarrow> player \<Rightarrow> player" where
  "apply_gravity ds k g p =
     (if \<not> isWallClimbing p then
        let p1 = p\<lparr>vy := vy p + g\<rparr>;
            maxFall = (if KeyS k then fastFallSpeed ds else maxFallSpeed ds)
        in (if vy p1 > maxFall then p1\<lparr>vy := maxFall\<rparr> else p1)
      else p)"

text \<open>Lines 464-492: jump pads, one loop iteration and the loop.\<close>

definition pad_hit :: "player \<Rightarrow> jumppad \<Rightarrow> bool" where
  "pad_hit p jp \<longleftrightarrow>
     pl_x p + pl_width p > jp_x jp \<and> pl_x p < jp_x jp + jp_width jp \<and>
     pl_y p + pl_height p \<ge> jp_y jp \<and> pl_y p + pl_height p \<le> jp_y jp + 20 \<and> vy p \<ge> 0"

definition pad_force :: "jumppad \<Rightarrow> num" where
  "pad_force jp =
     (let jf = (case jp_jumpForce jp of Some f \<Rightarrow> f | None \<Rightarrow> -20)
      in if jf \<ge> 0 then -20 else jf)"

definition jumppad_step :: "player \<Rightarrow> jumppad \<Rightarrow> player" where
  "jumppad_step p jp =
     (if pad_hit p jp then
        p\<lparr>vy := pad_force jp, pl_y := jp_y jp - pl_height p, grounded := False,
          jumpLocked := True, jumpsRemaining := extraJumps p,
          dashesRemaining := extraDashes p, isWallClimbing := False, isWallSliding := False\<rparr>
      else p)"

definition jumppad_pass :: "jumppad list \<Rightarrow> player \<Rightarrow> player" where
  "jumppad_pass pads p = foldl jumppad_step p pads"

text \<open>The rectangle test shared by both collision passes (lines 510-511 and 537-538).\<close>

definition overlaps :: "player \<Rightarrow> sobj \<Rightarrow> bool" where
  "overlaps p pf \<longleftrightarrow>
     pl_x p + pl_width p > ob_x pf \<and> pl_x p < ob_x pf + ob_width pf \<and>
     pl_y p + pl_height p > ob_y pf \<and> pl_y p < ob_y pf + ob_height pf"

text \<open>Lines 494-525: x-axis movement, world bounds and platforms.\<close>

definition x_step :: "player \<Rightarrow> sobj \<Rightarrow> player" where
  "x_step p pf =
     (if overlaps p pf then
        (if vx p > 0 then p\<lparr>pl_x := ob_x pf - pl_width p, vx := 0, lastTouchingWall := 1\<rparr>
         else if vx p < 0 then p\<lparr>pl_x := ob_x pf + ob_width pf, vx := 0, lastTouchingWall := -1\<rparr>
         else p)
      else p)"

definition x_move :: "num \<Rightarrow> player \<Rightarrow> player" where
  "x_move worldW p0 =
     (let p1 = p0\<lparr>pl_x := pl_x p0 + vx p0\<rparr>
      in if pl_x p1 < 0 then p1\<lparr>pl_x := 0, vx := 0, lastTouchingWall := -1\<rparr>
         else if pl_x p1 + pl_width p1 > worldW then
           p1\<lparr>pl_x := worldW - pl_width p1, vx := 0, lastTouchingWall := 1\<rparr>
         else p1\<lparr>lastTouchingWall := 0\<rparr>)"

definition x_pass :: "sobj list \<Rightarrow> num \<Rightarrow> player \<Rightarrow> player" where
  "x_pass platforms worldW p0 = foldl x_step (x_move worldW p0) platforms"

text \<open>Lines 527-553: y-axis movement, the top bound and platforms.\<close>

definition y_step :: "player \<Rightarrow> sobj \<Rightarrow> player" where
  "y_step p pf =
     (if overlaps p pf then
        (if vy p > 0 then
           p\<lparr>pl_y := ob_y pf - pl_height p, vy := 0, grounded := True,
             jumpsRemaining := extraJumps p, dashesRemaining := extraDashes p\<rparr>
         else if vy p < 0 then p\<lparr>pl_y := ob_y pf + ob_height pf, vy := 0\<rparr>
         else p)
      else p)"

definition y_move :: "player \<Rightarrow> player" where
  "y_move p0 =
     (let p1 = p0\<lparr>pl_y := pl_y p0 + vy p0\<rparr>;
          p2 = (if pl_y p1 < 0 then
                  (let p' = p1\<lparr>pl_y := 0\<rparr> in if vy p' < 0 then p'\<lparr>vy := 0\<rparr> else p')
                else p1)
      in p2\<lparr>grounded := False\<rparr>)"

definition y_pass :: "sobj list \<Rightarrow> player \<Rightarrow> player" where
  "y_pass platforms p0 = foldl y_step (y_move p0) platforms"

text \<open>
  Lines 555-568: fall damage and the respawn, as far as the body goes and on a level whose
  spawn point exists. \<open>fall_check\<close> below is the same block with a spawn point that may be
  \<^verbatim>\<open>null\<close> and with the deferred game over.
\<close>

definition fall_logic :: "settings \<Rightarrow> spawn_point \<Rightarrow> player \<Rightarrow> player" where
  "fall_logic ls spawn p =
     (if pl_y p > worldHeight ls + 100 then
        let dmg = or_default (fallDamage ls) 20;
            p1 = takeDamage dmg p
        in (if hp p1 > 0 then
              p1\<lparr>pl_x := sp_x spawn, pl_y := sp_y spawn, vx := 0, vy := 0, trail := []\<rparr>
            else p1)
      else p)"

text \<open>
  \<^verbatim>\<open>Player.update(platforms, levelSettings, dt)\<close> (script.js 307-569), as far as the body
  goes and on a level whose spawn point exists. The globals it reads are parameters: \<open>ds\<close>
  is \<^verbatim>\<open>defaultSettings\<close>, \<open>k\<close> is \<^verbatim>\<open>keys\<close>, and \<open>pads\<close> and \<open>spawn\<close> are
  \<^verbatim>\<open>game.currentLevelData.jumppads\<close> and \<^verbatim>\<open>.spawn\<close>.
\<close>

definition Player_update ::
  "settings \<Rightarrow> keys \<Rightarrow> jumppad list \<Rightarrow> spawn_point \<Rightarrow> sobj list \<Rightarrow> settings \<Rightarrow> num \<Rightarrow> player \<Rightarrow> player" where
  "Player_update ds k pads spawn platforms ls dt p0 =
     (let p1 = tick_dash dt (tick_invulnerable (record_trail p0));
          spd = tick_speed ds p1;
          jf = jumpForce ds;
          g = tick_gravity ds p1;
          p2 = regen_mp ls dt p1;
          p3 = horizontal_input ds k spd dt p2;
          p4 = dash_skill k p3;
          p5 = jump_logic k spd jf dt p4;
          p6 = apply_gravity ds k g p5;
          p7 = jumppad_pass pads p6;
          p8 = x_pass platforms (worldWidth ls) p7;
          p9 = y_pass platforms p8
      in fall_logic ls spawn p9)"

text \<open>
  Two prefixes of the same call: \<open>steer\<close> is lines 308-492, the body with the velocity of
  this tick before it is moved, and \<open>move_body\<close> is lines 308-553, the body after both
  collision passes and before the fall check.
\<close>

definition steer :: "settings \<Rightarrow> keys \<Rightarrow> jumppad list \<Rightarrow> settings \<Rightarrow> num \<Rightarrow> player \<Rightarrow> player" where
  "steer ds k pads ls dt p0 =
     (let p1 = tick_dash dt (tick_invulnerable (record_trail p0));
          spd = tick_speed ds p1;
          jf = jumpForce ds;
          g = tick_gravity ds p1;
          p2 = regen_mp ls dt p1;
          p3 = horizontal_input ds k spd dt p2;
          p4 = dash_skill k p3;
          p5 = jump_logic k spd jf dt p4;
          p6 = apply_gravity ds k g p5
      in jumppad_pass pads p6)"

definition move_body ::
  "settings \<Rightarrow> keys \<Rightarrow> jumppad list \<Rightarrow> sobj list \<Rightarrow> settings \<Rightarrow> num \<Rightarrow> player \<Rightarrow> player" where
  "move_body ds k pads platforms ls dt p0 =
     y_pass platforms (x_pass platforms (worldWidth ls) (steer ds k pads ls dt p0))"

subsection \<open>Beyond the body: the deferred game over and a level without spawn point\<close>

text \<open>
  \<^verbatim>\<open>takeDamage\<close> ends with \<^verbatim>\<open>if (this.hp <= 0) setTimeout(() => game.gameOver(), 500)\<close>
  (lines 243-253). \<open>damage_player\<close> is the call at the host's time \<open>now\<close> (in seconds) on
  the body together with the times at which the pending \<^verbatim>\<open>game.gameOver()\<close> calls are due.
\<close>

definition damage_player :: "num \<Rightarrow> num \<Rightarrow> player \<times> num list \<Rightarrow> player \<times> num list" where
  "damage_player now amount s =
     (case s of (p, overs) \<Rightarrow>
        (takeDamage amount p,
         if \<not> invulnerable p \<and> hp (takeDamage amount p) \<le> 0 then overs @ [now + 1/2] else overs))"

text \<open>
  The editor can delete the spawn point of a level (\<^verbatim>\<open>data.spawn = null\<close>, lines
  2097-2098). Lines 561-563 read \<^verbatim>\<open>game.currentLevelData.spawn.x\<close> without a test, so on
  such a level the respawn throws a \<^verbatim>\<open>TypeError\<close> after the damage has been applied.
\<close>

datatype error = TypeError

definition fall_check ::
  "settings \<Rightarrow> spawn_point option \<Rightarrow> num \<Rightarrow> player \<times> num list \<Rightarrow> error + player \<times> num list" where
  "fall_check ls spawn now s =
     (if pl_y (fst s) > worldHeight ls + 100 then
        (case damage_player now (or_default (fallDamage ls) 20) s of
           (p1, overs) \<Rightarrow>
             if hp p1 > 0 then
               (case spawn of
                  None \<Rightarrow> Inl TypeError
                | Some sp \<Rightarrow>
                    Inr (p1\<lparr>pl_x := sp_x sp, pl_y := sp_y sp, vx := 0, vy := 0, trail := []\<rparr>, overs))
             else Inr (p1, overs))
      else Inr s)"

text \<open>\<^verbatim>\<open>Player.update\<close> with both: the body and the pending game-over calls, or the exception.\<close>

definition Player_update_host ::
  "settings \<Rightarrow> keys \<Rightarrow> jumppad list \<Rightarrow> spawn_point option \<Rightarrow> sobj list \<Rightarrow> settings \<Rightarrow> num \<Rightarrow> num
     \<Rightarrow> player \<times> num list \<Rightarrow> error + player \<times> num list" where
  "Player_update_host ds k pads spawn platforms ls dt now s =
     fall_check ls spawn now (move_body ds k pads platforms ls dt (fst s), snd s)"

subsection \<open>Running the body over several ticks\<close>

text \<open>
  \<^verbatim>\<open>Game.update\<close> calls \<^verbatim>\<open>this.player.update(...)\<close> once per frame (line 3767). A
  \<open>tick_input\<close> collects what one such call reads; \<open>run_updates\<close> is a sequence of calls.
\<close>

record tick_input =
  ti_ds :: settings
  ti_keys :: keys
  ti_pads :: "jumppad list"
  ti_spawn :: spawn_point
  ti_platforms :: "sobj list"
  ti_ls :: settings
  ti_dt :: num

definition update_with :: "player \<Rightarrow> tick_input \<Rightarrow> player" where
  "update_with p i =
     Player_update (ti_ds i) (ti_keys i) (ti_pads i) (ti_spawn i) (ti_platforms i) (ti_ls i) (ti_dt i) p"

definition run_updates :: "tick_input list \<Rightarrow> player \<Rightarrow> player" where
  "run_updates ins p = foldl update_with p ins"

text \<open>A platform without a motion script.\<close>

definition static_platform :: "num \<Rightarrow> num \<Rightarrow> num \<Rightarrow> num \<Rightarrow> sobj" where
  "static_platform x y w h =
     \<lparr> ob_x = x, ob_y = y, ob_width = w, ob_height = h, ob_speed = None, ob_tx = None,
       ob_ty = None, oscX = None, oscY = None, oscSpeed = None, baseX = None, baseY = None,
       startX = None, startY = None, movingForward = None, oscTime = None, rotation = None,
       scale = None, damage = None, dormant = False, ob_type = Spikes \<rparr>"

text \<open>The keyboard with no key held.\<close>

definition no_keys :: keys where
  "no_keys = \<lparr>KeyA = False, KeyD = False, KeyW = False, KeyS = False, Space = False,
               ShiftLeft = False, ShiftRight = False\<rparr>"

text \<open>\<^verbatim>\<open>Player.reset\<close> (script.js 171-208), the state of a fresh body.\<close>

definition reset :: "settings \<Rightarrow> player" where
  "reset ds =
     \<lparr> pl_x = 100, pl_y = 100, pl_width = 30, pl_height = 30, vx = 0, vy = 0,
       grounded = False, jumpLocked = False, trail = [],
       maxHp = playerMaxHp ds, hp = playerMaxHp ds, maxMp = playerMaxMp ds, mp = playerMaxMp ds,
       defense = 0, invulnerable = False, invulnerableTimer = 0,
       extraJumps = 0, jumpsRemaining = 0, extraDashes = 0, dashesRemaining = 0,
       dashCooldown = 0, isDashing = False, dashTimer = 0, lastDirection = 1,
       wallClimbLevel = 0, lastTouchingWall = 0, wallJumpTimer = 0,
       isWallSliding = False, isWallClimbing = False,
       dashSpeedMult = None, doubleJumpMult = None \<rparr>"


text \<open>
  A call with no key held on an empty level of 800 by 600 with the default settings, the
  spawn point \<open>s\<close> and the time step \<open>dt\<close>; and the seconds that a sequence of calls spans.
\<close>

definition idle_tick :: "spawn_point \<Rightarrow> num \<Rightarrow> tick_input" where
  "idle_tick s dt =
     \<lparr>ti_ds = defaultSettings 800 600, ti_keys = no_keys, ti_pads = [], ti_spawn = s,
      ti_platforms = [], ti_ls = defaultSettings 800 600, ti_dt = dt\<rparr>"

definition duration :: "tick_input list \<Rightarrow> num" where
  "duration ins = sum_list (map ti_dt ins)"

text \<open>The part of the body that damage and the invulnerability window read and write.\<close>

definition health :: "player \<Rightarrow> num \<times> bool \<times> num \<times> num" where
  "health p = (hp p, invulnerable p, invulnerableTimer p, defense p)"

section \<open>The level, scripted motion and hazards\<close>

text \<open>
  A trigger binding refers to a trap by its index in the level's \<^verbatim>\<open>traps\<close> array; an index
  outside the array reads \<^verbatim>\<open>undefined\<close> and is skipped by the code's \<^verbatim>\<open>if (trap)\<close>.
\<close>

record binding =
  trapIndex :: nat
  delay :: "num option"

record trigger =
  tr_x :: num
  tr_y :: num
  tr_width :: num
  tr_height :: num
  oneShot :: bool
  triggered :: bool
  bindings :: "binding list"

record level_data =
  lv_settings :: settings
  lv_platforms :: "sobj list"
  lv_traps :: "sobj list"
  lv_jumppads :: "jumppad list"
  lv_triggers :: "trigger list"
  lv_spawn :: spawn_point

datatype game_state = Play | Edit | Won | Shop

text \<open>
  The game object. \<^verbatim>\<open>setTimeout(callback, bind.delay * 1000)\<close> hands a callback to the
  host; the model keeps the pending callbacks of the trigger bindings in \<open>g_timers\<close>, each
  as the time in seconds at which it is due and the index of the trap it captured, and the
  host's clock in \<open>g_clock\<close>.
\<close>

record game =
  g_state :: game_state
  g_player :: player
  g_level :: level_data
  g_timers :: "(num \<times> nat) list"
  g_clock :: num

subsection \<open>Dormancy at level load (\<^verbatim>\<open>Game.loadLevel\<close>, lines 3302-3314)\<close>

definition set_dormant :: "bool \<Rightarrow> sobj list \<Rightarrow> nat \<Rightarrow> sobj list" where
  "set_dormant v ts i = (if i < length ts then ts[i := (ts ! i)\<lparr>dormant := v\<rparr>] else ts)"

definition mark_dormant :: "sobj list \<Rightarrow> binding \<Rightarrow> sobj list" where
  "mark_dormant ts b = set_dormant True ts (trapIndex b)"


subsection \<open>Trigger detection (\<^verbatim>\<open>Game.update\<close>, lines 3617-3645)\<close>





subsection \<open>The deferred callbacks and the host's clock\<close>




subsection \<open>Scripted motion (\<^verbatim>\<open>applyMovement\<close>, lines 3656-3756)\<close>

text \<open>\<^verbatim>\<open>if (v === undefined) v = d\<close>, read back.\<close>

definition num_init :: "num option \<Rightarrow> num \<Rightarrow> num" where
  "num_init v d = (case v of None \<Rightarrow> d | Some a \<Rightarrow> a)"

definition hypot :: "num \<Rightarrow> num \<Rightarrow> num" where
  "hypot a b = sqrt (a * a + b * b)"

text \<open>The values the ping-pong block works with, after its initialisations.\<close>

definition base_of :: "sobj \<Rightarrow> num \<times> num" where
  "base_of obj = (num_init (baseX obj) (ob_x obj), num_init (baseY obj) (ob_y obj))"

definition start_of :: "sobj \<Rightarrow> num \<times> num" where
  "start_of obj = (num_init (startX obj) (fst (base_of obj)), num_init (startY obj) (snd (base_of obj)))"

definition forward_of :: "sobj \<Rightarrow> bool" where
  "forward_of obj = (case movingForward obj of None \<Rightarrow> True | Some f \<Rightarrow> f)"

definition shift_of :: "sobj \<Rightarrow> num \<times> num" where
  "shift_of obj = (or_default (ob_tx obj) 0, or_default (ob_ty obj) 0)"

definition target_of :: "sobj \<Rightarrow> num \<times> num" where
  "target_of obj =
     (if forward_of obj then (fst (start_of obj) + fst (shift_of obj), snd (start_of obj) + snd (shift_of obj))
      else start_of obj)"

definition dist_of :: "sobj \<Rightarrow> num" where
  "dist_of obj = hypot (fst (target_of obj) - fst (base_of obj)) (snd (target_of obj) - snd (base_of obj))"

definition moveStep_of :: "num \<Rightarrow> sobj \<Rightarrow> num" where
  "moveStep_of dt obj = num_init (ob_speed obj) 0 * dt"

text \<open>The step of a tick that does not reach the target (lines 3690-3691).\<close>

definition delta_of :: "num \<Rightarrow> sobj \<Rightarrow> num \<times> num" where
  "delta_of dt obj =
     ((fst (target_of obj) - fst (base_of obj)) / dist_of obj * moveStep_of dt obj,
      (snd (target_of obj) - snd (base_of obj)) / dist_of obj * moveStep_of dt obj)"

text \<open>The trap's box at a prospective centre against one platform (lines 3701-3710).\<close>

definition trap_box_hits :: "sobj \<Rightarrow> num \<times> num \<Rightarrow> sobj \<Rightarrow> bool" where
  "trap_box_hits obj c pf =
     (let sw = ob_width obj * or_default (scale obj) 1;
          sh = ob_height obj * or_default (scale obj) 1
      in fst c - sw / 2 < ob_x pf + ob_width pf \<and> fst c + sw / 2 > ob_x pf \<and>
         snd c - sh / 2 < ob_y pf + ob_height pf \<and> snd c + sh / 2 > ob_y pf)"

definition willCollide :: "sobj list \<Rightarrow> num \<Rightarrow> sobj \<Rightarrow> bool" where
  "willCollide pfs dt obj =
     list_ex (trap_box_hits obj (fst (base_of obj) + fst (delta_of dt obj),
                                 snd (base_of obj) + snd (delta_of dt obj))) pfs"

text \<open>
  The ping-pong block (lines 3670-3726), entered when \<^verbatim>\<open>obj.speed > 0\<close> and
  \<^verbatim>\<open>(tx, ty)\<close> is not zero. \<open>pfs\<close> is \<^verbatim>\<open>this.currentLevelData.platforms\<close>.
\<close>

definition pingpong :: "sobj list \<Rightarrow> num \<Rightarrow> bool \<Rightarrow> sobj \<Rightarrow> sobj" where
  "pingpong pfs dt isPlatform obj =
     (let o1 = obj\<lparr>startX := Some (fst (start_of obj)), startY := Some (snd (start_of obj))\<rparr>
      in if dist_of obj \<le> moveStep_of dt obj then
           o1\<lparr>baseX := Some (fst (target_of obj)), baseY := Some (snd (target_of obj)),
              movingForward := Some (\<not> forward_of obj)\<rparr>
         else if \<not> isPlatform \<and> willCollide pfs dt obj then
           o1\<lparr>baseX := Some (fst (base_of obj) + 0), baseY := Some (snd (base_of obj) + 0),
              movingForward := Some (\<not> forward_of obj)\<rparr>
         else
           o1\<lparr>baseX := Some (fst (base_of obj) + fst (delta_of dt obj)),
              baseY := Some (snd (base_of obj) + snd (delta_of dt obj)),
              movingForward := Some (forward_of obj)\<rparr>)"

definition moves_linearly :: "sobj \<Rightarrow> bool" where
  "moves_linearly obj \<longleftrightarrow>
     positive (ob_speed obj) \<and> (fst (shift_of obj) \<noteq> 0 \<or> snd (shift_of obj) \<noteq> 0)"

text \<open>The oscillation block (lines 3728-3736): the new \<^verbatim>\<open>oscTime\<close> and the offset.\<close>

definition oscillates :: "sobj \<Rightarrow> bool" where
  "oscillates obj \<longleftrightarrow> positive (oscSpeed obj) \<and> (\<not> falsy (oscX obj) \<or> \<not> falsy (oscY obj))"

definition oscTime_of :: "num \<Rightarrow> sobj \<Rightarrow> num" where
  "oscTime_of dt obj = num_init (oscTime obj) 0 + dt * num_init (oscSpeed obj) 0"

definition osc_offset :: "num \<Rightarrow> sobj \<Rightarrow> num \<times> num" where
  "osc_offset dt obj =
     (if oscillates obj then
        (sin (oscTime_of dt obj) * or_default (oscX obj) 0,
         cos (oscTime_of dt obj) * or_default (oscY obj) 0)
      else (0, 0))"

text \<open>The object after one call of \<^verbatim>\<open>applyMovement\<close>.\<close>

definition move_object :: "sobj list \<Rightarrow> num \<Rightarrow> bool \<Rightarrow> sobj \<Rightarrow> sobj" where
  "move_object pfs dt isPlatform obj =
     (if falsy (ob_speed obj) \<and> falsy (oscSpeed obj) then obj
      else
        let o1 = obj\<lparr>baseX := Some (fst (base_of obj)), baseY := Some (snd (base_of obj))\<rparr>;
            o2 = (if moves_linearly o1 then pingpong pfs dt isPlatform o1 else o1);
            o3 = (if oscillates o2 then o2\<lparr>oscTime := Some (oscTime_of dt o2)\<rparr> else o2)
        in o3\<lparr>ob_x := fst (base_of o2) + fst (osc_offset dt o2),
              ob_y := snd (base_of o2) + snd (osc_offset dt o2)\<rparr>)"

text \<open>The passenger carry at the end of \<^verbatim>\<open>applyMovement\<close> (lines 3747-3755).\<close>

definition carry :: "bool \<Rightarrow> sobj \<Rightarrow> sobj \<Rightarrow> player \<Rightarrow> player" where
  "carry isPlatform old new p =
     (if falsy (ob_speed old) \<and> falsy (oscSpeed old) then p
      else if isPlatform \<and> vy p \<ge> 0 \<and>
              pl_x p + pl_width p > ob_x new \<and> pl_x p < ob_x new + ob_width new \<and>
              \<bar>(pl_y p + pl_height p) - ob_y new\<bar> < 15
      then p\<lparr>pl_x := pl_x p + (ob_x new - ob_x old), pl_y := pl_y p + (ob_y new - ob_y old)\<rparr>
      else p)"

definition applyMovement :: "sobj list \<Rightarrow> num \<Rightarrow> bool \<Rightarrow> sobj \<times> player \<Rightarrow> sobj \<times> player" where
  "applyMovement pfs dt isPlatform s =
     (case s of (obj, p) \<Rightarrow>
        let new = move_object pfs dt isPlatform obj in (new, carry isPlatform obj new p))"

text \<open>
  The two loops over the level (lines 3758-3765). Dormant traps are skipped. The platform
  list is read by the test for traps only, so the loop over the platforms passes none.
\<close>

definition move_platform :: "num \<Rightarrow> sobj list \<times> player \<Rightarrow> sobj \<Rightarrow> sobj list \<times> player" where
  "move_platform dt s pf =
     (case s of (done, p) \<Rightarrow>
        case applyMovement [] dt True (pf, p) of (pf', p') \<Rightarrow> (done @ [pf'], p'))"

definition move_trap :: "sobj list \<Rightarrow> num \<Rightarrow> sobj list \<times> player \<Rightarrow> sobj \<Rightarrow> sobj list \<times> player" where
  "move_trap pfs dt s t =
     (case s of (done, p) \<Rightarrow>
        if dormant t then (done @ [t], p)
        else case applyMovement pfs dt False (t, p) of (t', p') \<Rightarrow> (done @ [t'], p'))"

definition movement :: "num \<Rightarrow> game \<Rightarrow> game" where
  "movement dt g =
     (case foldl (move_platform dt) ([], g_player g) (lv_platforms (g_level g)) of
        (pfs, p1) \<Rightarrow>
          case foldl (move_trap pfs dt) ([], p1) (lv_traps (g_level g)) of
            (ts, p2) \<Rightarrow>
              g\<lparr>g_player := p2, g_level := (g_level g)\<lparr>lv_platforms := pfs, lv_traps := ts\<rparr>\<rparr>)"

subsection \<open>Laser bounds (\<^verbatim>\<open>Game.getLaserBounds\<close>, lines 3539-3606)\<close>

text \<open>JavaScript's \<^verbatim>\<open>%\<close> on integers: the result has the sign of the dividend.\<close>

definition js_rem :: "int \<Rightarrow> int \<Rightarrow> int" where
  "js_rem a b = sgn a * (\<bar>a\<bar> mod \<bar>b\<bar>)"

definition rotation_of :: "sobj \<Rightarrow> int" where
  "rotation_of t = js_rem (case rotation t of None \<Rightarrow> 0 | Some r \<Rightarrow> r) 360"

record laser_bounds =
  minX :: num
  maxX :: num
  minY :: num
  maxY :: num
  lb_startX :: num
  lb_startY :: num
  lb_endX :: num
  lb_endY :: num

text \<open>The four loop bodies: each takes the current end of the beam and one platform.\<close>

definition clip_right :: "num \<Rightarrow> num \<Rightarrow> num \<Rightarrow> sobj \<Rightarrow> num" where
  "clip_right sx sy e pf =
     (if sy \<ge> ob_y pf \<and> sy \<le> ob_y pf + ob_height pf then
        (if ob_x pf \<ge> sx \<and> ob_x pf < e then ob_x pf else e)
      else e)"

definition clip_left :: "num \<Rightarrow> num \<Rightarrow> num \<Rightarrow> sobj \<Rightarrow> num" where
  "clip_left sx sy e pf =
     (if sy \<ge> ob_y pf \<and> sy \<le> ob_y pf + ob_height pf then
        (if ob_x pf + ob_width pf \<le> sx \<and> ob_x pf + ob_width pf > e then ob_x pf + ob_width pf else e)
      else e)"

definition clip_down :: "num \<Rightarrow> num \<Rightarrow> num \<Rightarrow> sobj \<Rightarrow> num" where
  "clip_down sx sy e pf =
     (if sx \<ge> ob_x pf \<and> sx \<le> ob_x pf + ob_width pf then
        (if ob_y pf \<ge> sy \<and> ob_y pf < e then ob_y pf else e)
      else e)"

definition clip_up :: "num \<Rightarrow> num \<Rightarrow> num \<Rightarrow> sobj \<Rightarrow> num" where
  "clip_up sx sy e pf =
     (if sx \<ge> ob_x pf \<and> sx \<le> ob_x pf + ob_width pf then
        (if ob_y pf + ob_height pf \<le> sy \<and> ob_y pf + ob_height pf > e then ob_y pf + ob_height pf else e)
      else e)"

definition getLaserBounds :: "sobj \<Rightarrow> sobj list \<Rightarrow> laser_bounds" where
  "getLaserBounds trap pfs =
     (let r = rotation_of trap;
          (sx, sy, ex, ey) =
            (if r = 90 then (ob_x trap, ob_y trap - ob_width trap / 2, ob_x trap, ob_y trap + ob_width trap / 2)
             else if r = 270 then (ob_x trap, ob_y trap + ob_width trap / 2, ob_x trap, ob_y trap - ob_width trap / 2)
             else if r = 180 then (ob_x trap + ob_width trap / 2, ob_y trap, ob_x trap - ob_width trap / 2, ob_y trap)
             else (ob_x trap - ob_width trap / 2, ob_y trap, ob_x trap + ob_width trap / 2, ob_y trap));
          ex' = (if r = 0 \<or> r = 180 then
                   (if r = 0 then foldl (clip_right sx sy) ex pfs else foldl (clip_left sx sy) ex pfs)
                 else ex);
          ey' = (if r = 0 \<or> r = 180 then ey
                 else (if r = 90 then foldl (clip_down sx sy) ey pfs else foldl (clip_up sx sy) ey pfs))
      in \<lparr> minX = min sx ex', maxX = max sx ex', minY = min sy ey', maxY = max sy ey',
           lb_startX = sx, lb_startY = sy, lb_endX = ex', lb_endY = ey' \<rparr>)"

subsection \<open>Hazard evaluation and the frame (\<^verbatim>\<open>Game.update\<close>, lines 3614-3802)\<close>








subsection \<open>Notions used to state the properties of motion and lasers\<close>

text \<open>
  The condition under which the loop of \<^verbatim>\<open>getLaserBounds\<close> clips the beam of a laser that
  fires to the right at a platform (lines 3562-3568): the platform's vertical extent
  contains the beam's height and its left face lies on the beam, from the emitter up to,
  but not including, the nominal end.
\<close>

definition blocks_beam :: "sobj \<Rightarrow> sobj \<Rightarrow> bool" where
  "blocks_beam trap pf \<longleftrightarrow>
     ob_y pf \<le> ob_y trap \<and> ob_y trap \<le> ob_y pf + ob_height pf \<and>
     ob_x trap - ob_width trap / 2 \<le> ob_x pf \<and> ob_x pf < ob_x trap + ob_width trap / 2"

text \<open>
  The notion of the specification: the nominal beam, the segment from \<open>(x - width/2, y)\<close> to
  \<open>(x + width/2, y)\<close>, passes through the rectangle of the platform.
\<close>

definition beam_crosses :: "sobj \<Rightarrow> sobj \<Rightarrow> bool" where
  "beam_crosses trap pf \<longleftrightarrow>
     ob_y pf \<le> ob_y trap \<and> ob_y trap \<le> ob_y pf + ob_height pf \<and>
     ob_x pf \<le> ob_x trap + ob_width trap / 2 \<and> ob_x trap - ob_width trap / 2 \<le> ob_x pf + ob_width pf"

text \<open>A platform in front of the emitter at \<open>(sx, sy)\<close>, whatever the length of the beam.\<close>

definition ahead :: "num \<Rightarrow> num \<Rightarrow> sobj \<Rightarrow> bool" where
  "ahead sx sy pf \<longleftrightarrow> ob_y pf \<le> sy \<and> sy \<le> ob_y pf + ob_height pf \<and> sx \<le> ob_x pf"

text \<open>An object with a ping-pong script: speed and translation target.\<close>

definition with_script :: "sobj \<Rightarrow> num \<Rightarrow> num \<Rightarrow> num \<Rightarrow> sobj" where
  "with_script obj s tx ty = obj\<lparr>ob_speed := Some s, ob_tx := Some tx, ob_ty := Some ty\<rparr>"

text \<open>
  The notion of the specification: the axis-aligned bounding box of a hazard with its
  centre at \<open>c\<close>, against one platform. A hazard turned by 90 or 270 degrees covers its
  height across and its width down, as the hazard evaluation has it (lines 3787-3793).
\<close>

definition aabb_hits :: "sobj \<Rightarrow> num \<times> num \<Rightarrow> sobj \<Rightarrow> bool" where
  "aabb_hits obj c pf =
     (let isVertical = (rotation_of obj = 90 \<or> rotation_of obj = 270);
          w = (if isVertical then ob_height obj else ob_width obj) * or_default (scale obj) 1;
          h = (if isVertical then ob_width obj else ob_height obj) * or_default (scale obj) 1
      in fst c - w / 2 < ob_x pf + ob_width pf \<and> fst c + w / 2 > ob_x pf \<and>
         snd c - h / 2 < ob_y pf + ob_height pf \<and> snd c + h / 2 > ob_y pf)"

subsection \<open>Notions used to state the properties of triggers\<close>












subsection \<open>Notions used in the proofs about the body\<close>





section \<open>Properties of the kinematic body\<close>

lemma takeDamage_invulnerable: "invulnerable p \<Longrightarrow> takeDamage a p = p"
  by (simp add: takeDamage_def)

lemma takeDamage_vulnerable:
  "\<not> invulnerable p \<Longrightarrow>
   takeDamage a p = p\<lparr>hp := max 0 (hp p - max 0 (a - defense p)), invulnerable := True, invulnerableTimer := 30\<rparr>"
  by (simp add: takeDamage_def Let_def max_def)

lemma foldl_fix: "(\<And>x. f p x = p) \<Longrightarrow> foldl f p xs = p"
  by (induction xs) simp_all

lemma health_record_trail: "health (record_trail p) = health p"
  by (simp add: health_def record_trail_def Let_def)

lemma health_tick_dash: "health (tick_dash dt p) = health p"
  by (simp add: health_def tick_dash_def Let_def)

lemma health_regen_mp: "health (regen_mp ls dt p) = health p"
  by (simp add: health_def regen_mp_def Let_def)

lemma health_horizontal_input: "health (horizontal_input ds k spd dt p) = health p"
  by (simp add: health_def horizontal_input_def Let_def)

lemma health_dash_skill: "health (dash_skill k p) = health p"
  by (simp add: health_def dash_skill_def)

lemma health_wall_logic: "health (snd (wall_logic k spd jf dt p)) = health p"
  by (simp add: health_def wall_logic_def Let_def consumeMp_def)

lemma health_jump_logic: "health (jump_logic k spd jf dt p) = health p"
proof -
  obtain d q where w: "wall_logic k spd jf dt p = (d, q)" by fastforce
  then have "health q = health p"
    using health_wall_logic [of k spd jf dt p] by simp
  then show ?thesis
    by (simp add: jump_logic_def w Let_def health_def)
qed

lemma health_apply_gravity: "health (apply_gravity ds k g p) = health p"
  by (simp add: health_def apply_gravity_def Let_def)

lemma health_foldl:
  "(\<And>q x. health (f q x) = health q) \<Longrightarrow> health (foldl f p xs) = health p"
  by (induction xs arbitrary: p) simp_all

lemma health_jumppad_pass: "health (jumppad_pass pads p) = health p"
  unfolding jumppad_pass_def
  by (rule health_foldl) (simp add: health_def jumppad_step_def)

lemma health_x_pass: "health (x_pass pfs w p) = health p"
proof -
  have "\<And>q x. health (x_step q x) = health q"
    by (simp add: health_def x_step_def)
  then have "health (x_pass pfs w p) = health (x_move w p)"
    unfolding x_pass_def by (simp add: health_foldl)
  also have "\<dots> = health p"
    by (simp add: health_def x_move_def Let_def)
  finally show ?thesis .
qed

lemma health_y_pass: "health (y_pass pfs p) = health p"
proof -
  have "\<And>q x. health (y_step q x) = health q"
    by (simp add: health_def y_step_def)
  then have "health (y_pass pfs p) = health (y_move p)"
    unfolding y_pass_def by (simp add: health_foldl)
  also have "\<dots> = health p"
    by (simp add: health_def y_move_def Let_def)
  finally show ?thesis .
qed

lemma hp_fall_logic_invulnerable:
  "invulnerable p \<Longrightarrow> health (fall_logic ls spawn p) = health p"
  by (simp add: fall_logic_def Let_def takeDamage_def health_def)

lemma health_tick_invulnerable:
  "invulnerable p \<Longrightarrow> invulnerableTimer p > 1 \<Longrightarrow>
   health (tick_invulnerable p) = (hp p, True, invulnerableTimer p - 1, defense p)"
  by (simp add: tick_invulnerable_def Let_def health_def)

lemma Player_update_window:
  assumes "invulnerable p" and "invulnerableTimer p > 1"
  shows "health (Player_update ds k pads spawn platforms ls dt p)
         = (hp p, True, invulnerableTimer p - 1, defense p)"
proof -
  let ?p1 = "tick_dash dt (tick_invulnerable (record_trail p))"
  have h0: "health (record_trail p) = health p" by (rule health_record_trail)
  then have "invulnerable (record_trail p)" "invulnerableTimer (record_trail p) > 1"
    "hp (record_trail p) = hp p" "defense (record_trail p) = defense p"
    "invulnerableTimer (record_trail p) = invulnerableTimer p"
    using assms by (simp_all add: health_def)
  then have h1: "health ?p1 = (hp p, True, invulnerableTimer p - 1, defense p)"
    using health_tick_invulnerable [of "record_trail p"] by (simp add: health_tick_dash)
  have h9: "health (y_pass platforms (x_pass platforms (worldWidth ls) (jumppad_pass pads
        (apply_gravity ds k (tick_gravity ds ?p1) (jump_logic k (tick_speed ds ?p1) (jumpForce ds) dt
        (dash_skill k (horizontal_input ds k (tick_speed ds ?p1) dt (regen_mp ls dt ?p1)))))))) = health ?p1"
    by (simp only: health_y_pass health_x_pass health_jumppad_pass health_apply_gravity
        health_jump_logic health_dash_skill health_horizontal_input health_regen_mp)
  then show ?thesis
    unfolding Player_update_def Let_def
    using h1 hp_fall_logic_invulnerable by (metis health_def prod.inject)
qed


lemma run_updates_window:
  "invulnerable p \<Longrightarrow> invulnerableTimer p > real (length ins) \<Longrightarrow>
   health (run_updates ins p) = (hp p, True, invulnerableTimer p - real (length ins), defense p)"
proof (induction ins arbitrary: p)
  case Nil
  then show ?case by (simp add: run_updates_def health_def)
next
  case (Cons i ins)
  let ?q = "update_with p i"
  have t: "invulnerableTimer p > 1" using Cons.prems by simp
  have hq: "health ?q = (hp p, True, invulnerableTimer p - 1, defense p)"
    unfolding update_with_def using Cons.prems(1) t by (rule Player_update_window)
  then have "invulnerable ?q" "invulnerableTimer ?q > real (length ins)"
    using Cons.prems by (simp_all add: health_def)
  then have "health (run_updates ins ?q)
     = (hp ?q, True, invulnerableTimer ?q - real (length ins), defense ?q)"
    by (rule Cons.IH)
  then show ?case using hq by (simp add: run_updates_def health_def)
qed

lemma takeDamage_twice: "hp (takeDamage b (takeDamage a p)) = hp (takeDamage a p)"
  by (simp add: takeDamage_def Let_def)

lemma foldl_jumppad_rising: "vy p < 0 \<Longrightarrow> foldl jumppad_step p pads = p"
  by (rule foldl_fix) (simp add: jumppad_step_def pad_hit_def)

lemma pad_force_negative: "pad_force jp < 0"
  by (simp add: pad_force_def Let_def split: option.splits)

text \<open>
  Claim C9. A jump pad that fires sets \<open>vy\<close> to a force that is always upward: the pad's
  own \<^verbatim>\<open>jumpForce\<close> when it is present and negative, and the default \<open>-20\<close> when it is
  missing or not negative. After the jump-pad loop of a tick in which some pad is touched,
  \<open>vy\<close> is strictly negative.
\<close>

theorem jump_pad_launch_upward:
  "(pad_hit p jp \<longrightarrow> vy (jumppad_step p jp) = pad_force jp) \<and>
   pad_force jp < 0 \<and>
   pad_force jp = (case jp_jumpForce jp of None \<Rightarrow> -20 | Some f \<Rightarrow> if f < 0 then f else -20) \<and>
   ((\<exists>jp \<in> set pads. pad_hit p jp) \<longrightarrow> vy (jumppad_pass pads p) < 0)"
proof (intro conjI impI)
  show "pad_force jp < 0" by (rule pad_force_negative)
  show "pad_force jp = (case jp_jumpForce jp of None \<Rightarrow> -20 | Some f \<Rightarrow> if f < 0 then f else -20)"
    by (simp add: pad_force_def Let_def split: option.splits)
next
  assume "pad_hit p jp"
  then show "vy (jumppad_step p jp) = pad_force jp" by (simp add: jumppad_step_def)
next
  assume "\<exists>jp \<in> set pads. pad_hit p jp"
  then show "vy (jumppad_pass pads p) < 0"
    unfolding jumppad_pass_def
  proof (induction pads arbitrary: p)
    case Nil
    then show ?case by simp
  next
    case (Cons a pads)
    show ?case
    proof (cases "pad_hit p a")
      case True
      then have "vy (jumppad_step p a) < 0"
        by (simp add: jumppad_step_def pad_force_negative)
      then show ?thesis by (simp add: foldl_jumppad_rising)
    next
      case False
      then have "jumppad_step p a = p" by (simp add: jumppad_step_def)
      moreover have "\<exists>jp \<in> set pads. pad_hit p jp" using Cons.prems False by auto
      ultimately show ?thesis using Cons.IH by simp
    qed
  qed
qed

theorem jump_pad_launch_upward_witness:
  "pad_hit ((reset (defaultSettings 800 600))\<lparr>pl_y := 470\<rparr>)
     \<lparr>jp_x = 90, jp_y = 500, jp_width = 50, jp_jumpForce = Some 5\<rparr> \<and>
   vy (jumppad_step ((reset (defaultSettings 800 600))\<lparr>pl_y := 470\<rparr>)
     \<lparr>jp_x = 90, jp_y = 500, jp_width = 50, jp_jumpForce = Some 5\<rparr>) = -20 \<and>
   vy (jumppad_pass [\<lparr>jp_x = 90, jp_y = 500, jp_width = 50, jp_jumpForce = Some 5\<rparr>]
     ((reset (defaultSettings 800 600))\<lparr>pl_y := 470\<rparr>)) < 0"
proof -
  let ?p = "(reset (defaultSettings 800 600))\<lparr>pl_y := 470\<rparr>"
  let ?jp = "\<lparr>jp_x = 90, jp_y = 500, jp_width = 50, jp_jumpForce = Some 5\<rparr>"
  have h: "pad_hit ?p ?jp" by (simp add: pad_hit_def reset_def)
  then have e: "\<exists>jp \<in> set [?jp]. pad_hit ?p jp" by simp
  from jump_pad_launch_upward [of ?p ?jp "[?jp]"] h e
  have "vy (jumppad_step ?p ?jp) = pad_force ?jp"
    and "pad_force ?jp = (case jp_jumpForce ?jp of None \<Rightarrow> -20 | Some f \<Rightarrow> if f < 0 then f else -20)"
    and "vy (jumppad_pass [?jp] ?p) < 0"
    by blast+
  then show ?thesis using h by simp
qed

lemma regen_mp_level_physics:
  "regen_mp (ls\<lparr>gravity := g, friction := f, jumpForce := j, speed := s,
         maxFallSpeed := m, fastFallSpeed := ff\<rparr>) dt p = regen_mp ls dt p"
  by (simp add: regen_mp_def)

lemma fall_logic_level_physics:
  "fall_logic (ls\<lparr>gravity := g, friction := f, jumpForce := j, speed := s,
         maxFallSpeed := m, fastFallSpeed := ff\<rparr>) spawn p = fall_logic ls spawn p"
  by (simp add: fall_logic_def)

text \<open>
  Claim C10. \<^verbatim>\<open>Player.update\<close> takes its physics constants from \<^verbatim>\<open>defaultSettings\<close>
  only. Replacing the gravity, friction, jump force, speed and both fall-speed caps of the
  level's own settings by any other values leaves the whole resulting body, and so its
  position and velocity, the same.
\<close>

theorem physics_constants_global_only:
  "Player_update ds k pads spawn platforms
     (ls\<lparr>gravity := g, friction := f, jumpForce := j, speed := s,
         maxFallSpeed := m, fastFallSpeed := ff\<rparr>) dt p
   = Player_update ds k pads spawn platforms ls dt p"
  unfolding Player_update_def Let_def regen_mp_level_physics fall_logic_level_physics
  by simp

theorem physics_constants_global_only_witness:
  "Player_update (defaultSettings 800 600) no_keys [] \<lparr>sp_x = 100, sp_y = 100\<rparr> []
     ((defaultSettings 800 600)\<lparr>gravity := 3, friction := 1/2, jumpForce := -30, speed := 12,
         maxFallSpeed := 1, fastFallSpeed := 2\<rparr>) (1/60) (reset (defaultSettings 800 600))
   = Player_update (defaultSettings 800 600) no_keys [] \<lparr>sp_x = 100, sp_y = 100\<rparr> []
     (defaultSettings 800 600) (1/60) (reset (defaultSettings 800 600))"
  by (rule physics_constants_global_only)









lemma fall_logic_above: "\<not> pl_y p > worldHeight ls + 100 \<Longrightarrow> fall_logic ls spawn p = p"
  by (simp add: fall_logic_def)




















lemma steady_tick_dash:
  "\<not> isDashing q \<Longrightarrow> \<not> isDashing (tick_dash dt q) \<and> wallJumpTimer (tick_dash dt q) = wallJumpTimer q"
  by (simp add: tick_dash_def Let_def)

lemma steady_regen_mp:
  "isDashing (regen_mp ls dt q) = isDashing q \<and> wallJumpTimer (regen_mp ls dt q) = wallJumpTimer q"
  by (simp add: regen_mp_def Let_def)







lemma jump_logic_idle:
  "jump_logic no_keys spd jf dt q = q\<lparr>isWallSliding := False, isWallClimbing := False, jumpLocked := False\<rparr>"
  by (simp add: jump_logic_def wall_logic_def no_keys_def Let_def)

lemma dash_skill_idle: "dash_skill no_keys q = q"
  by (simp add: dash_skill_def no_keys_def)

lemma horizontal_input_idle:
  "\<not> isDashing q \<Longrightarrow> wallJumpTimer q \<le> 0 \<Longrightarrow>
   horizontal_input ds no_keys spd dt q
     = q\<lparr>vx := (if \<bar>vx q * friction ds\<bar> < 1/10 then 0 else vx q * friction ds)\<rparr>"
  by (simp add: horizontal_input_def no_keys_def Let_def)

lemma apply_gravity_idle:
  "\<not> isWallClimbing q \<Longrightarrow>
   apply_gravity ds no_keys g q = q\<lparr>vy := min (vy q + g) (maxFallSpeed ds)\<rparr>"
  by (simp add: apply_gravity_def no_keys_def Let_def min_def)

lemma Player_update_move_body:
  "Player_update ds k pads spawn platforms ls dt p
     = fall_logic ls spawn (move_body ds k pads platforms ls dt p)"
  by (simp add: Player_update_def move_body_def steer_def Let_def)

lemma fall_check_some:
  "fall_check ls (Some s) now (p, overs) =
     Inr (fall_logic ls s p,
          if pl_y p > worldHeight ls + 100 \<and> \<not> invulnerable p \<and> hp (fall_logic ls s p) \<le> 0
          then overs @ [now + 1/2] else overs)"
  by (simp add: fall_check_def fall_logic_def damage_player_def Let_def)

lemma free_flight_move_body:
  assumes nd: "\<not> isDashing p" and wj: "wallJumpTimer p \<le> 0"
    and xb: "0 \<le> pl_x p + (if \<bar>vx p * friction ds\<bar> < 1/10 then 0 else vx p * friction ds)"
        "pl_x p + (if \<bar>vx p * friction ds\<bar> < 1/10 then 0 else vx p * friction ds) + pl_width p
           \<le> worldWidth ls"
    and yb: "0 \<le> pl_y p + min (vy p + gravity ds) (maxFallSpeed ds)"
  shows "move_body ds no_keys [] [] ls dt p =
     (regen_mp ls dt (tick_dash dt (tick_invulnerable (record_trail p))))
       \<lparr>vx := (if \<bar>vx p * friction ds\<bar> < 1/10 then 0 else vx p * friction ds),
        isWallSliding := False, isWallClimbing := False, jumpLocked := False,
        vy := min (vy p + gravity ds) (maxFallSpeed ds),
        pl_x := pl_x p + (if \<bar>vx p * friction ds\<bar> < 1/10 then 0 else vx p * friction ds),
        lastTouchingWall := 0,
        pl_y := pl_y p + min (vy p + gravity ds) (maxFallSpeed ds),
        grounded := False\<rparr>"
proof -
  let ?vx = "if \<bar>vx p * friction ds\<bar> < 1/10 then 0 else vx p * friction ds"
  let ?vy = "min (vy p + gravity ds) (maxFallSpeed ds)"
  define p0 where "p0 = tick_invulnerable (record_trail p)"
  define p1 where "p1 = tick_dash dt p0"
  define p2 where "p2 = regen_mp ls dt p1"
  define p3 where "p3 = horizontal_input ds no_keys (speed ds) dt p2"
  define p5 where "p5 = jump_logic no_keys (speed ds) (jumpForce ds) dt (dash_skill no_keys p3)"
  define p6 where "p6 = apply_gravity ds no_keys (gravity ds) p5"
  define p8 where "p8 = x_pass [] (worldWidth ls) (jumppad_pass [] p6)"
  define p9 where "p9 = y_pass [] p8"
  have s0: "\<not> isDashing p0" "wallJumpTimer p0 \<le> 0"
    using nd wj by (simp_all add: p0_def tick_invulnerable_def record_trail_def Let_def)
  have k: "tick_speed ds p1 = speed ds" "tick_gravity ds p1 = gravity ds"
    using s0(1) steady_tick_dash [of p0 dt] by (simp_all add: p1_def tick_speed_def tick_gravity_def)
  have s2: "\<not> isDashing p2" "wallJumpTimer p2 \<le> 0"
    using s0 steady_tick_dash [of p0 dt] steady_regen_mp [of ls dt p1] by (simp_all add: p2_def p1_def)
  have f2: "vx p2 = vx p" "vy p2 = vy p" "pl_x p2 = pl_x p" "pl_y p2 = pl_y p"
    "pl_width p2 = pl_width p" "pl_height p2 = pl_height p"
    by (simp_all add: p2_def p1_def p0_def regen_mp_def tick_dash_def tick_invulnerable_def
        record_trail_def Let_def)
  have e3: "p3 = p2\<lparr>vx := ?vx\<rparr>"
    unfolding p3_def using horizontal_input_idle [OF s2, of ds "speed ds" dt] by (simp add: f2)
  have e5: "p5 = p3\<lparr>isWallSliding := False, isWallClimbing := False, jumpLocked := False\<rparr>"
    unfolding p5_def by (simp add: dash_skill_idle jump_logic_idle)
  have f5: "vx p5 = ?vx" "vy p5 = vy p" "pl_x p5 = pl_x p" "pl_y p5 = pl_y p"
    "pl_width p5 = pl_width p" "pl_height p5 = pl_height p" "\<not> isWallClimbing p5"
    by (simp_all add: e5 e3 f2)
  have e6: "p6 = p5\<lparr>vy := ?vy\<rparr>"
    unfolding p6_def using apply_gravity_idle [OF f5(7), of ds "gravity ds"] by (simp add: f5)
  have f6: "vx p6 = ?vx" "vy p6 = ?vy" "pl_x p6 = pl_x p" "pl_y p6 = pl_y p"
    "pl_width p6 = pl_width p" "pl_height p6 = pl_height p"
    by (simp_all add: e6 f5)
  have e8: "p8 = p6\<lparr>pl_x := pl_x p + ?vx, lastTouchingWall := 0\<rparr>"
    using xb by (simp add: p8_def x_pass_def x_move_def jumppad_pass_def Let_def f6)
  have f8: "vy p8 = ?vy" "pl_y p8 = pl_y p"
    by (simp_all add: e8 f6)
  have e9: "p9 = p8\<lparr>pl_y := pl_y p + ?vy, grounded := False\<rparr>"
    using yb by (simp add: p9_def y_pass_def y_move_def Let_def f8)
  have "move_body ds no_keys [] [] ls dt p
      = y_pass [] (x_pass [] (worldWidth ls) (jumppad_pass []
          (apply_gravity ds no_keys (tick_gravity ds p1)
            (jump_logic no_keys (tick_speed ds p1) (jumpForce ds) dt
              (dash_skill no_keys (horizontal_input ds no_keys (tick_speed ds p1) dt
                 (regen_mp ls dt p1)))))))"
    by (simp add: move_body_def steer_def Let_def p1_def p0_def)
  also have "\<dots> = p9"
    by (simp only: k p9_def p8_def p6_def p5_def p3_def p2_def)
  also have "\<dots> = p2\<lparr>vx := ?vx, isWallSliding := False, isWallClimbing := False, jumpLocked := False,
        vy := ?vy, pl_x := pl_x p + ?vx, lastTouchingWall := 0, pl_y := pl_y p + ?vy, grounded := False\<rparr>"
    by (simp only: e9 e8 e6 e5 e3)
  finally show ?thesis by (simp only: p2_def p1_def p0_def)
qed




lemma health_tick_invulnerable_cases:
  "health (tick_invulnerable p) =
     (if invulnerable p then (hp p, 0 < invulnerableTimer p - 1, invulnerableTimer p - 1, defense p)
      else health p)"
  by (simp add: tick_invulnerable_def Let_def health_def)

lemma health_move_body: "health (move_body ds k pads pfs ls dt p) = health (tick_invulnerable p)"
  unfolding move_body_def steer_def Let_def
  by (simp only: health_y_pass health_x_pass health_jumppad_pass health_apply_gravity
        health_jump_logic health_dash_skill health_horizontal_input health_regen_mp
        health_tick_dash)
     (simp add: health_def tick_invulnerable_def record_trail_def Let_def)

lemma idle_move_body:
  assumes "\<not> isDashing p" "wallJumpTimer p \<le> 0" "vx p = 0" "0 \<le> pl_x p"
    "pl_x p + pl_width p \<le> 800" "0 \<le> pl_y p" "0 \<le> vy p"
  shows "move_body (defaultSettings 800 600) no_keys [] [] (defaultSettings 800 600) dt p =
     (regen_mp (defaultSettings 800 600) dt (tick_dash dt (tick_invulnerable (record_trail p))))
       \<lparr>vx := 0, isWallSliding := False, isWallClimbing := False, jumpLocked := False,
        vy := min (vy p + 4/10) 9, pl_x := pl_x p, lastTouchingWall := 0,
        pl_y := pl_y p + min (vy p + 4/10) 9, grounded := False\<rparr>"
  using free_flight_move_body [of p "defaultSettings 800 600" "defaultSettings 800 600" dt] assms
  by (simp add: defaultSettings_def)

lemma idle_move_body_facts:
  assumes "\<not> isDashing p" "wallJumpTimer p \<le> 0" "vx p = 0" "0 \<le> pl_x p"
    "pl_x p + pl_width p \<le> 800" "0 \<le> pl_y p" "0 \<le> vy p"
  shows "\<not> isDashing (move_body (defaultSettings 800 600) no_keys [] [] (defaultSettings 800 600) dt p)"
    and "wallJumpTimer (move_body (defaultSettings 800 600) no_keys [] [] (defaultSettings 800 600) dt p)
           = wallJumpTimer p"
    and "vx (move_body (defaultSettings 800 600) no_keys [] [] (defaultSettings 800 600) dt p) = 0"
    and "vy (move_body (defaultSettings 800 600) no_keys [] [] (defaultSettings 800 600) dt p)
           = min (vy p + 4/10) 9"
    and "pl_x (move_body (defaultSettings 800 600) no_keys [] [] (defaultSettings 800 600) dt p) = pl_x p"
    and "pl_y (move_body (defaultSettings 800 600) no_keys [] [] (defaultSettings 800 600) dt p)
           = pl_y p + min (vy p + 4/10) 9"
    and "pl_width (move_body (defaultSettings 800 600) no_keys [] [] (defaultSettings 800 600) dt p)
           = pl_width p"
proof -
  let ?q = "regen_mp (defaultSettings 800 600) dt (tick_dash dt (tick_invulnerable (record_trail p)))"
  have a: "\<not> isDashing (tick_invulnerable (record_trail p))"
    using assms(1) by (simp add: tick_invulnerable_def record_trail_def Let_def)
  have b: "\<not> isDashing ?q"
    using steady_tick_dash [OF a, of dt] steady_regen_mp [of "defaultSettings 800 600" dt] by simp
  have c: "wallJumpTimer ?q = wallJumpTimer p" "pl_width ?q = pl_width p"
    by (simp_all add: regen_mp_def tick_dash_def tick_invulnerable_def record_trail_def Let_def)
  note e = idle_move_body [OF assms, of dt]
  show "\<not> isDashing (move_body (defaultSettings 800 600) no_keys [] [] (defaultSettings 800 600) dt p)"
    unfolding e using b by simp
  show "wallJumpTimer (move_body (defaultSettings 800 600) no_keys [] [] (defaultSettings 800 600) dt p)
           = wallJumpTimer p"
    unfolding e using c by simp
  show "vx (move_body (defaultSettings 800 600) no_keys [] [] (defaultSettings 800 600) dt p) = 0"
    unfolding e by simp
  show "vy (move_body (defaultSettings 800 600) no_keys [] [] (defaultSettings 800 600) dt p)
           = min (vy p + 4/10) 9"
    unfolding e by simp
  show "pl_x (move_body (defaultSettings 800 600) no_keys [] [] (defaultSettings 800 600) dt p) = pl_x p"
    unfolding e by simp
  show "pl_y (move_body (defaultSettings 800 600) no_keys [] [] (defaultSettings 800 600) dt p)
           = pl_y p + min (vy p + 4/10) 9"
    unfolding e by simp
  show "pl_width (move_body (defaultSettings 800 600) no_keys [] [] (defaultSettings 800 600) dt p)
           = pl_width p"
    unfolding e using c by simp
qed

lemma update_with_idle:
  "update_with p (idle_tick s dt)
     = fall_logic (defaultSettings 800 600) s
         (move_body (defaultSettings 800 600) no_keys [] [] (defaultSettings 800 600) dt p)"
  by (simp add: update_with_def idle_tick_def Player_update_move_body)

text \<open>A body in free fall inside the world: one idle call, and a sequence of them.\<close>

lemma idle_tick_falling:
  assumes "\<not> isDashing p" "wallJumpTimer p \<le> 0" "vx p = 0" "0 \<le> pl_x p"
    "pl_x p + pl_width p \<le> 800" "0 \<le> pl_y p" "0 \<le> vy p" "pl_y p + 9 \<le> 700"
  shows "\<not> isDashing (update_with p (idle_tick s dt))"
    and "wallJumpTimer (update_with p (idle_tick s dt)) \<le> 0"
    and "vx (update_with p (idle_tick s dt)) = 0"
    and "0 \<le> pl_x (update_with p (idle_tick s dt))"
    and "pl_x (update_with p (idle_tick s dt)) + pl_width (update_with p (idle_tick s dt)) \<le> 800"
    and "0 \<le> pl_y (update_with p (idle_tick s dt))"
    and "0 \<le> vy (update_with p (idle_tick s dt))"
    and "pl_y (update_with p (idle_tick s dt)) \<le> pl_y p + 9"
    and "health (update_with p (idle_tick s dt)) = health (tick_invulnerable p)"
proof -
  let ?m = "move_body (defaultSettings 800 600) no_keys [] [] (defaultSettings 800 600) dt p"
  note f = idle_move_body_facts [OF assms(1-7), of dt]
  have y: "pl_y ?m \<le> pl_y p + 9" using f(6) by simp
  then have "\<not> pl_y ?m > worldHeight (defaultSettings 800 600) + 100"
    using assms(8) by (simp add: defaultSettings_def)
  then have u: "update_with p (idle_tick s dt) = ?m"
    by (simp add: update_with_idle fall_logic_above)
  show "\<not> isDashing (update_with p (idle_tick s dt))" unfolding u by (rule f(1))
  show "wallJumpTimer (update_with p (idle_tick s dt)) \<le> 0" unfolding u using f(2) assms(2) by simp
  show "vx (update_with p (idle_tick s dt)) = 0" unfolding u by (rule f(3))
  show "0 \<le> pl_x (update_with p (idle_tick s dt))" unfolding u using f(5) assms(4) by simp
  show "pl_x (update_with p (idle_tick s dt)) + pl_width (update_with p (idle_tick s dt)) \<le> 800"
    unfolding u using f(5,7) assms(5) by simp
  show "0 \<le> pl_y (update_with p (idle_tick s dt))" unfolding u using f(6) assms(6,7) by simp
  show "0 \<le> vy (update_with p (idle_tick s dt))" unfolding u using f(4) assms(7) by simp
  show "pl_y (update_with p (idle_tick s dt)) \<le> pl_y p + 9" unfolding u by (rule y)
  show "health (update_with p (idle_tick s dt)) = health (tick_invulnerable p)"
    unfolding u by (rule health_move_body)
qed

lemma run_updates_Cons: "run_updates (i # ins) p = run_updates ins (update_with p i)"
  by (simp add: run_updates_def)

lemma idle_ticks_falling:
  assumes "\<not> isDashing p" "wallJumpTimer p \<le> 0" "vx p = 0" "0 \<le> pl_x p"
    "pl_x p + pl_width p \<le> 800" "0 \<le> pl_y p" "0 \<le> vy p" "pl_y p + 9 * real n \<le> 700"
    "invulnerable p" "0 < invulnerableTimer p" "real n \<le> invulnerableTimer p"
  shows "health (run_updates (replicate n (idle_tick s dt)) p)
           = (hp p, real n < invulnerableTimer p, invulnerableTimer p - real n, defense p)"
  using assms
proof (induction n arbitrary: p)
  case 0
  then show ?case by (simp add: run_updates_def health_def)
next
  case (Suc n)
  let ?q = "update_with p (idle_tick s dt)"
  have y: "pl_y p + 9 \<le> 700" using Suc.prems(8) by simp
  note f = idle_tick_falling [OF Suc.prems(1-7) y, of s dt]
  have h: "health ?q = (hp p, 0 < invulnerableTimer p - 1, invulnerableTimer p - 1, defense p)"
    using f(9) Suc.prems(9) by (simp add: health_tick_invulnerable_cases)
  show ?case
  proof (cases "0 < invulnerableTimer p - 1")
    case True
    have i: "invulnerable ?q" "0 < invulnerableTimer ?q" "real n \<le> invulnerableTimer ?q"
      using h True Suc.prems(11) by (simp_all add: health_def)
    have b: "pl_y ?q + 9 * real n \<le> 700" using f(8) Suc.prems(8) by simp
    from Suc.IH [OF f(1-7) b i]
    have "health (run_updates (replicate n (idle_tick s dt)) ?q)
           = (hp ?q, real n < invulnerableTimer ?q, invulnerableTimer ?q - real n, defense ?q)" .
    then show ?thesis using h by (simp add: run_updates_Cons health_def) argo
  next
    case False
    then have "n = 0" using Suc.prems(11) by simp
    then show ?thesis using h False by (simp add: run_updates_def health_def)
  qed
qed


lemma run_updates_append: "run_updates (a @ b) p = run_updates b (run_updates a p)"
  by (simp add: run_updates_def)

lemma health_takeDamage:
  "health (takeDamage a p) =
     (if invulnerable p then health p
      else (max 0 (hp p - max 0 (a - defense p)), True, 30, defense p))"
  by (simp add: takeDamage_def Let_def health_def max_def)

lemma health_takeDamage_cong:
  "health p = health q \<Longrightarrow> health (takeDamage a p) = health (takeDamage a q)"
  by (simp add: health_takeDamage) (simp add: health_def)

text \<open>A body at a spawn point that lies below the fall threshold.\<close>

lemma idle_tick_respawn:
  assumes "\<not> isDashing p" "wallJumpTimer p \<le> 0" "vx p = 0" "vy p = 0"
    "pl_x p = 100" "pl_y p = 900" "pl_width p = 30"
  shows "health (update_with p (idle_tick \<lparr>sp_x = 100, sp_y = 900\<rparr> dt))
           = health (takeDamage 20 (tick_invulnerable p))"
    and "pl_y (move_body (defaultSettings 800 600) no_keys [] [] (defaultSettings 800 600) dt p)
           = 900 + 4/10"
    and "vy (move_body (defaultSettings 800 600) no_keys [] [] (defaultSettings 800 600) dt p) = 4/10"
    and "0 < hp (update_with p (idle_tick \<lparr>sp_x = 100, sp_y = 900\<rparr> dt)) \<Longrightarrow>
         \<not> isDashing (update_with p (idle_tick \<lparr>sp_x = 100, sp_y = 900\<rparr> dt)) \<and>
         wallJumpTimer (update_with p (idle_tick \<lparr>sp_x = 100, sp_y = 900\<rparr> dt)) \<le> 0 \<and>
         vx (update_with p (idle_tick \<lparr>sp_x = 100, sp_y = 900\<rparr> dt)) = 0 \<and>
         vy (update_with p (idle_tick \<lparr>sp_x = 100, sp_y = 900\<rparr> dt)) = 0 \<and>
         pl_x (update_with p (idle_tick \<lparr>sp_x = 100, sp_y = 900\<rparr> dt)) = 100 \<and>
         pl_y (update_with p (idle_tick \<lparr>sp_x = 100, sp_y = 900\<rparr> dt)) = 900 \<and>
         pl_width (update_with p (idle_tick \<lparr>sp_x = 100, sp_y = 900\<rparr> dt)) = 30"
proof -
  let ?D = "defaultSettings 800 600"
  let ?S = "\<lparr>sp_x = 100, sp_y = 900\<rparr>"
  let ?m = "move_body ?D no_keys [] [] ?D dt p"
  let ?q = "update_with p (idle_tick ?S dt)"
  have a: "0 \<le> pl_x p" "pl_x p + pl_width p \<le> 800" "0 \<le> pl_y p" "0 \<le> vy p"
    using assms by simp_all
  note f = idle_move_body_facts [OF assms(1-3) a, of dt]
  show y: "pl_y ?m = 900 + 4/10" using f(6) assms by simp
  show v: "vy ?m = 4/10" using f(4) assms by simp
  have b: "pl_y ?m > worldHeight ?D + 100" using y by (simp add: defaultSettings_def)
  have d: "or_default (fallDamage ?D) 20 = 20" by (simp add: defaultSettings_def or_default_def)
  have q: "?q = (if hp (takeDamage 20 ?m) > 0
        then (takeDamage 20 ?m)\<lparr>pl_x := 100, pl_y := 900, vx := 0, vy := 0, trail := []\<rparr>
        else takeDamage 20 ?m)"
    using b by (simp add: update_with_idle fall_logic_def Let_def d)
  have "health ?q = health (takeDamage 20 ?m)"
    by (simp add: q health_def)
  also have "\<dots> = health (takeDamage 20 (tick_invulnerable p))"
    by (rule health_takeDamage_cong) (rule health_move_body)
  finally show "health ?q = health (takeDamage 20 (tick_invulnerable p))" .
  assume "0 < hp ?q"
  then have e: "?q = (takeDamage 20 ?m)\<lparr>pl_x := 100, pl_y := 900, vx := 0, vy := 0, trail := []\<rparr>"
    by (simp add: q split: if_splits)
  have t: "isDashing (takeDamage 20 ?m) = isDashing ?m"
    "wallJumpTimer (takeDamage 20 ?m) = wallJumpTimer ?m"
    "pl_width (takeDamage 20 ?m) = pl_width ?m"
    by (simp_all add: takeDamage_def Let_def)
  show "\<not> isDashing ?q \<and> wallJumpTimer ?q \<le> 0 \<and> vx ?q = 0 \<and> vy ?q = 0 \<and>
        pl_x ?q = 100 \<and> pl_y ?q = 900 \<and> pl_width ?q = 30"
    unfolding e using t f(1,2,7) assms(2,7) by simp
qed

lemma idle_ticks_respawn:
  assumes "\<not> isDashing p" "wallJumpTimer p \<le> 0" "vx p = 0" "vy p = 0"
    "pl_x p = 100" "pl_y p = 900" "pl_width p = 30"
    "invulnerable p" "real n < invulnerableTimer p" "0 < hp p"
  shows "health (run_updates (replicate n (idle_tick \<lparr>sp_x = 100, sp_y = 900\<rparr> dt)) p)
           = (hp p, True, invulnerableTimer p - real n, defense p) \<and>
         \<not> isDashing (run_updates (replicate n (idle_tick \<lparr>sp_x = 100, sp_y = 900\<rparr> dt)) p) \<and>
         wallJumpTimer (run_updates (replicate n (idle_tick \<lparr>sp_x = 100, sp_y = 900\<rparr> dt)) p) \<le> 0 \<and>
         vx (run_updates (replicate n (idle_tick \<lparr>sp_x = 100, sp_y = 900\<rparr> dt)) p) = 0 \<and>
         vy (run_updates (replicate n (idle_tick \<lparr>sp_x = 100, sp_y = 900\<rparr> dt)) p) = 0 \<and>
         pl_x (run_updates (replicate n (idle_tick \<lparr>sp_x = 100, sp_y = 900\<rparr> dt)) p) = 100 \<and>
         pl_y (run_updates (replicate n (idle_tick \<lparr>sp_x = 100, sp_y = 900\<rparr> dt)) p) = 900 \<and>
         pl_width (run_updates (replicate n (idle_tick \<lparr>sp_x = 100, sp_y = 900\<rparr> dt)) p) = 30"
  using assms
proof (induction n arbitrary: p)
  case 0
  then show ?case by (simp add: run_updates_def health_def)
next
  case (Suc n)
  let ?T = "idle_tick \<lparr>sp_x = 100, sp_y = 900\<rparr> dt"
  let ?q = "update_with p ?T"
  note f = idle_tick_respawn [OF Suc.prems(1-7), of dt]
  have t: "1 < invulnerableTimer p" using Suc.prems(9) by simp
  have "health (tick_invulnerable p) = (hp p, True, invulnerableTimer p - 1, defense p)"
    using Suc.prems(8) t by (simp add: health_tick_invulnerable_cases)
  then have "health (takeDamage 20 (tick_invulnerable p)) = (hp p, True, invulnerableTimer p - 1, defense p)"
    by (simp add: health_takeDamage) (simp add: health_def)
  then have h: "health ?q = (hp p, True, invulnerableTimer p - 1, defense p)"
    using f(1) by simp
  then have i: "invulnerable ?q" "real n < invulnerableTimer ?q" "0 < hp ?q"
    using Suc.prems(9,10) by (simp_all add: health_def)
  from f(4) [OF i(3)] have g: "\<not> isDashing ?q" "wallJumpTimer ?q \<le> 0" "vx ?q = 0" "vy ?q = 0"
    "pl_x ?q = 100" "pl_y ?q = 900" "pl_width ?q = 30"
    by blast+
  note r = Suc.IH [OF g i]
  have hq: "hp ?q = hp p" "invulnerableTimer ?q = invulnerableTimer p - 1" "defense ?q = defense p"
    using h by (simp_all add: health_def)
  have c: "invulnerableTimer ?q - real n = invulnerableTimer p - real (Suc n)"
    using hq(2) by simp
  show ?case
    unfolding replicate_Suc run_updates_Cons using r unfolding hq(1,3) c by blast
qed

lemma length_le_duration:
  "(\<forall>i \<in> set ins. c \<le> ti_dt i) \<Longrightarrow> c * real (length ins) \<le> duration ins"
  unfolding duration_def
proof (induction ins)
  case Nil
  show ?case by simp
next
  case (Cons i ins)
  then have "c \<le> ti_dt i" "c * real (length ins) \<le> sum_list (map ti_dt ins)" by simp_all
  then show ?case by (simp add: algebra_simps)
qed

text \<open>
  Claim C1, as the code has it. A call of \<^verbatim>\<open>takeDamage\<close> on an invulnerable body changes
  nothing. On a vulnerable body it subtracts \<open>max (amount - defense) 0\<close> from \<open>hp\<close>, floors
  \<open>hp\<close> at 0 and opens the invulnerability window: flag set, timer at 30. The window is
  counted in \<^verbatim>\<open>Player.update\<close> calls, not in seconds (the code's "0.5s at 60fps"): after
  any number below 30 of further calls, with any inputs and any time steps, a second call
  produces no second reduction. In seconds this gives the 0.5 s of the claim only when no
  call is less than 1/60 s after the one before: then calls that span less than 0.5 s are
  fewer than 30.
\<close>

theorem takeDamage_invulnerability_window:
  "(invulnerable p \<longrightarrow> takeDamage amount p = p) \<and>
   (\<not> invulnerable p \<longrightarrow>
      hp (takeDamage amount p) = max 0 (hp p - max 0 (amount - defense p)) \<and>
      invulnerable (takeDamage amount p) \<and>
      invulnerableTimer (takeDamage amount p) = 30 \<and>
      (\<forall>ins amount'. length ins < 30 \<longrightarrow>
         hp (takeDamage amount' (run_updates ins (takeDamage amount p)))
           = hp (takeDamage amount p)) \<and>
      (\<forall>ins amount'. (\<forall>i \<in> set ins. 1/60 \<le> ti_dt i) \<and> duration ins < 1/2 \<longrightarrow>
         hp (takeDamage amount' (run_updates ins (takeDamage amount p)))
           = hp (takeDamage amount p)))"
proof -
  have a: "invulnerable p \<longrightarrow> takeDamage amount p = p"
    by (simp add: takeDamage_invulnerable)
  let ?q = "takeDamage amount p"
  have w: "hp (takeDamage amount' (run_updates ins ?q)) = hp ?q"
    if v: "\<not> invulnerable p" and l: "length ins < 30" for ins :: "tick_input list" and amount'
  proof -
    have i: "invulnerable ?q" and t: "invulnerableTimer ?q = 30"
      using v by (simp_all add: takeDamage_vulnerable)
    have "invulnerableTimer ?q > real (length ins)" using t l by simp
    with i have "health (run_updates ins ?q)
        = (hp ?q, True, invulnerableTimer ?q - real (length ins), defense ?q)"
      by (rule run_updates_window)
    then have "invulnerable (run_updates ins ?q)" "hp (run_updates ins ?q) = hp ?q"
      by (simp_all add: health_def)
    then show ?thesis by (simp add: takeDamage_invulnerable)
  qed
  have s: "length ins < 30"
    if "\<forall>i \<in> set ins. 1/60 \<le> ti_dt i" "duration ins < 1/2" for ins :: "tick_input list"
  proof -
    have "1/60 * real (length ins) \<le> duration ins" using that(1) by (rule length_le_duration)
    then have "real (length ins) < 30" using that(2) by simp
    then show ?thesis by simp
  qed
  have b: "\<not> invulnerable p \<longrightarrow>
      hp ?q = max 0 (hp p - max 0 (amount - defense p)) \<and> invulnerable ?q \<and>
      invulnerableTimer ?q = 30"
    by (simp add: takeDamage_vulnerable)
  have c: "\<not> invulnerable p \<longrightarrow>
      (\<forall>ins amount'. length ins < 30 \<longrightarrow> hp (takeDamage amount' (run_updates ins ?q)) = hp ?q)"
    using w by blast
  have d: "\<not> invulnerable p \<longrightarrow>
      (\<forall>ins amount'. (\<forall>i \<in> set ins. 1/60 \<le> ti_dt i) \<and> duration ins < 1/2 \<longrightarrow>
         hp (takeDamage amount' (run_updates ins ?q)) = hp ?q)"
    using w s by blast
  from a b c d show ?thesis by blast
qed

lemma reset_facts:
  "\<not> invulnerable (reset (defaultSettings 800 600))"
  "hp (reset (defaultSettings 800 600)) = 100"
  "defense (reset (defaultSettings 800 600)) = 0"
  "\<not> isDashing (reset (defaultSettings 800 600))"
  "wallJumpTimer (reset (defaultSettings 800 600)) = 0"
  "vx (reset (defaultSettings 800 600)) = 0"
  "vy (reset (defaultSettings 800 600)) = 0"
  "pl_x (reset (defaultSettings 800 600)) = 100"
  "pl_y (reset (defaultSettings 800 600)) = 100"
  "pl_width (reset (defaultSettings 800 600)) = 30"
  by (simp_all add: reset_def defaultSettings_def)

lemma hurt_facts:
  "health (takeDamage 20 (reset (defaultSettings 800 600))) = (80, True, 30, 0)"
  "\<not> isDashing (takeDamage 20 (reset (defaultSettings 800 600)))"
  "wallJumpTimer (takeDamage 20 (reset (defaultSettings 800 600))) = 0"
  "vx (takeDamage 20 (reset (defaultSettings 800 600))) = 0"
  "vy (takeDamage 20 (reset (defaultSettings 800 600))) = 0"
  "pl_x (takeDamage 20 (reset (defaultSettings 800 600))) = 100"
  "pl_y (takeDamage 20 (reset (defaultSettings 800 600))) = 100"
  "pl_width (takeDamage 20 (reset (defaultSettings 800 600))) = 30"
  by (simp_all add: takeDamage_def Let_def health_def reset_facts)

text \<open>
  Claim C1 as stated fails: at 144 updates per second the window of 30 updates is over
  after 30/144 s, well within 0.5 s, and a second call then reduces \<open>hp\<close> again, from 80
  to 45.
\<close>

theorem takeDamage_invulnerability_window_counterexample:
  "duration (replicate 30 (idle_tick \<lparr>sp_x = 100, sp_y = 100\<rparr> (1/144))) < 1/2 \<and>
   hp (takeDamage 20 (reset (defaultSettings 800 600))) = 80 \<and>
   hp (takeDamage 35 (run_updates (replicate 30 (idle_tick \<lparr>sp_x = 100, sp_y = 100\<rparr> (1/144)))
         (takeDamage 20 (reset (defaultSettings 800 600))))) = 45"
proof -
  let ?P = "takeDamage 20 (reset (defaultSettings 800 600))"
  let ?T = "idle_tick \<lparr>sp_x = 100, sp_y = 100\<rparr> (1/144)"
  have d: "duration (replicate 30 ?T) < 1/2"
    by (simp add: duration_def idle_tick_def sum_list_replicate)
  have h: "hp ?P = 80" "invulnerable ?P" "invulnerableTimer ?P = 30" "defense ?P = 0"
    using hurt_facts(1) by (simp_all add: health_def)
  have "health (run_updates (replicate 30 ?T) ?P)
      = (hp ?P, real 30 < invulnerableTimer ?P, invulnerableTimer ?P - real 30, defense ?P)"
    by (rule idle_ticks_falling) (simp_all add: hurt_facts h)
  then have "health (run_updates (replicate 30 ?T) ?P) = (80, False, 0, 0)"
    by (simp add: h)
  then have "hp (takeDamage 35 (run_updates (replicate 30 ?T) ?P)) = 45"
    by (simp add: takeDamage_def Let_def health_def)
  with d h(1) show ?thesis by blast
qed

theorem takeDamage_invulnerability_window_witness:
  "\<not> invulnerable (reset (defaultSettings 800 600)) \<and>
   hp (takeDamage 20 (reset (defaultSettings 800 600))) = 80 \<and>
   invulnerable (takeDamage 20 (reset (defaultSettings 800 600))) \<and>
   takeDamage 35 (takeDamage 20 (reset (defaultSettings 800 600)))
     = takeDamage 20 (reset (defaultSettings 800 600)) \<and>
   length (replicate 29 (idle_tick \<lparr>sp_x = 100, sp_y = 100\<rparr> (1/144))) < 30 \<and>
   hp (takeDamage 35 (run_updates (replicate 29 (idle_tick \<lparr>sp_x = 100, sp_y = 100\<rparr> (1/144)))
         (takeDamage 20 (reset (defaultSettings 800 600))))) = 80 \<and>
   ti_dt (idle_tick \<lparr>sp_x = 100, sp_y = 100\<rparr> (1/60)) = 1/60 \<and>
   duration (replicate 29 (idle_tick \<lparr>sp_x = 100, sp_y = 100\<rparr> (1/60))) < 1/2 \<and>
   hp (takeDamage 35 (run_updates (replicate 29 (idle_tick \<lparr>sp_x = 100, sp_y = 100\<rparr> (1/60)))
         (takeDamage 20 (reset (defaultSettings 800 600))))) = 80"
proof -
  let ?P = "reset (defaultSettings 800 600)"
  let ?A = "replicate 29 (idle_tick \<lparr>sp_x = 100, sp_y = 100\<rparr> (1/144))"
  let ?B = "replicate 29 (idle_tick \<lparr>sp_x = 100, sp_y = 100\<rparr> (1/60))"
  have v: "\<not> invulnerable ?P" by (rule reset_facts)
  have h: "hp ?P = 100" "defense ?P = 0" by (rule reset_facts)+
  from v takeDamage_invulnerability_window [of ?P 20]
  have a: "hp (takeDamage 20 ?P) = max 0 (hp ?P - max 0 (20 - defense ?P))"
    and i: "invulnerable (takeDamage 20 ?P)"
    and r: "\<forall>ins amount'. length ins < 30 \<longrightarrow>
         hp (takeDamage amount' (run_updates ins (takeDamage 20 ?P))) = hp (takeDamage 20 ?P)"
    and t: "\<forall>ins amount'. (\<forall>i \<in> set ins. 1/60 \<le> ti_dt i) \<and> duration ins < 1/2 \<longrightarrow>
         hp (takeDamage amount' (run_updates ins (takeDamage 20 ?P))) = hp (takeDamage 20 ?P)"
    by blast+
  from a h have a': "hp (takeDamage 20 ?P) = 80" by simp
  from i takeDamage_invulnerability_window [of "takeDamage 20 ?P" 35]
  have b: "takeDamage 35 (takeDamage 20 ?P) = takeDamage 20 ?P" by blast
  have l: "length ?A < 30" by simp
  with r have "hp (takeDamage 35 (run_updates ?A (takeDamage 20 ?P))) = hp (takeDamage 20 ?P)"
    by blast
  with a' have c: "hp (takeDamage 35 (run_updates ?A (takeDamage 20 ?P))) = 80" by simp
  have s: "(\<forall>i \<in> set ?B. 1/60 \<le> ti_dt i) \<and> duration ?B < 1/2"
    by (simp add: duration_def idle_tick_def sum_list_replicate)
  with t have "hp (takeDamage 35 (run_updates ?B (takeDamage 20 ?P))) = hp (takeDamage 20 ?P)"
    by blast
  with a' have e: "hp (takeDamage 35 (run_updates ?B (takeDamage 20 ?P))) = 80" by simp
  have d: "ti_dt (idle_tick \<lparr>sp_x = 100, sp_y = 100\<rparr> (1/60)) = 1/60"
    by (simp add: idle_tick_def)
  show ?thesis using v a' i b l c d s e by blast
qed

lemma fall_check_above:
  "\<not> pl_y p > worldHeight ls + 100 \<Longrightarrow> fall_check ls spawn now (p, overs) = Inr (p, overs)"
  by (simp add: fall_check_def)

lemma fall_check_without_spawn:
  "pl_y p > worldHeight ls + 100 \<Longrightarrow> hp (takeDamage (or_default (fallDamage ls) 20) p) > 0 \<Longrightarrow>
   fall_check ls None now (p, overs) = Inl TypeError"
  by (simp add: fall_check_def damage_player_def)

text \<open>
  Claim C7, as the code has it. The fall check of a tick that finds \<open>y > worldHeight + 100\<close>
  applies \<^verbatim>\<open>takeDamage\<close> once with the level's fall damage (default 20), which changes
  nothing on an invulnerable body; if \<open>hp\<close> is positive afterwards it puts the body at the
  spawn point with \<open>vx = vy = 0\<close>, otherwise it leaves the body where it is and the game
  over is pending. The check keeps no record of the fall: the statement holds for the body
  of every tick, also one that a previous check has just teleported. What holds damage
  off is the invulnerability window alone: after a check that has reduced \<open>hp\<close>, none of
  the next 29 ticks reduces it again, wherever the body is. Within the bounds the check
  changes nothing.
\<close>

theorem fall_damage_once:
  "(\<not> pl_y p > worldHeight ls + 100 \<longrightarrow> fall_check ls spawn now (p, overs) = Inr (p, overs)) \<and>
   (pl_y p > worldHeight ls + 100 \<longrightarrow>
      fall_check ls (Some s) now (p, overs)
        = Inr (fall_logic ls s p,
               if \<not> invulnerable p \<and> hp (fall_logic ls s p) \<le> 0 then overs @ [now + 1/2] else overs) \<and>
      hp (fall_logic ls s p) = hp (takeDamage (or_default (fallDamage ls) 20) p) \<and>
      (invulnerable p \<longrightarrow> hp (fall_logic ls s p) = hp p) \<and>
      (\<not> invulnerable p \<longrightarrow>
         hp (fall_logic ls s p)
           = max 0 (hp p - max 0 (or_default (fallDamage ls) 20 - defense p)) \<and>
         (\<forall>ins. length ins < 30 \<longrightarrow>
            hp (run_updates ins (fall_logic ls s p)) = hp (fall_logic ls s p))) \<and>
      (hp (fall_logic ls s p) > 0 \<longrightarrow>
         pl_x (fall_logic ls s p) = sp_x s \<and> pl_y (fall_logic ls s p) = sp_y s \<and>
         vx (fall_logic ls s p) = 0 \<and> vy (fall_logic ls s p) = 0) \<and>
      (\<not> hp (fall_logic ls s p) > 0 \<longrightarrow>
         pl_x (fall_logic ls s p) = pl_x p \<and> pl_y (fall_logic ls s p) = pl_y p))"
proof (rule conjI; rule impI)
  assume "\<not> pl_y p > worldHeight ls + 100"
  then show "fall_check ls spawn now (p, overs) = Inr (p, overs)" by (rule fall_check_above)
next
  assume b: "pl_y p > worldHeight ls + 100"
  let ?d = "or_default (fallDamage ls) 20"
  let ?q = "fall_logic ls s p"
  have q: "?q = (if hp (takeDamage ?d p) > 0
        then (takeDamage ?d p)\<lparr>pl_x := sp_x s, pl_y := sp_y s, vx := 0, vy := 0, trail := []\<rparr>
        else takeDamage ?d p)"
    using b by (simp add: fall_logic_def Let_def)
  have c: "fall_check ls (Some s) now (p, overs)
        = Inr (?q, if \<not> invulnerable p \<and> hp ?q \<le> 0 then overs @ [now + 1/2] else overs)"
    using b by (simp add: fall_check_some)
  have hq: "hp ?q = hp (takeDamage ?d p)" by (simp add: q)
  have inv: "invulnerable p \<longrightarrow> hp ?q = hp p"
    by (simp add: hq takeDamage_invulnerable)
  have up: "hp ?q > 0 \<longrightarrow> pl_x ?q = sp_x s \<and> pl_y ?q = sp_y s \<and> vx ?q = 0 \<and> vy ?q = 0"
    by (simp add: q)
  have stay: "\<not> hp ?q > 0 \<longrightarrow> pl_x ?q = pl_x p \<and> pl_y ?q = pl_y p"
    by (simp add: q takeDamage_def Let_def)
  have vul: "\<not> invulnerable p \<longrightarrow>
         hp ?q = max 0 (hp p - max 0 (?d - defense p)) \<and>
         (\<forall>ins. length ins < 30 \<longrightarrow> hp (run_updates ins ?q) = hp ?q)"
  proof
    assume v: "\<not> invulnerable p"
    have a: "hp ?q = max 0 (hp p - max 0 (?d - defense p))"
      using v by (simp add: hq takeDamage_vulnerable)
    have "health ?q = (hp (takeDamage ?d p), True, 30, defense p)"
      using v by (simp add: q health_def takeDamage_vulnerable)
    then have i: "invulnerable ?q" and t: "invulnerableTimer ?q = 30"
      by (simp_all add: health_def)
    have "hp (run_updates ins ?q) = hp ?q" if "length ins < 30" for ins :: "tick_input list"
    proof -
      have "invulnerableTimer ?q > real (length ins)" using t that by simp
      with i have "health (run_updates ins ?q)
          = (hp ?q, True, invulnerableTimer ?q - real (length ins), defense ?q)"
        by (rule run_updates_window)
      then show ?thesis by (simp add: health_def)
    qed
    with a show "hp ?q = max 0 (hp p - max 0 (?d - defense p)) \<and>
         (\<forall>ins. length ins < 30 \<longrightarrow> hp (run_updates ins ?q) = hp ?q)"
      by blast
  qed
  from c hq inv vul up stay
  show "fall_check ls (Some s) now (p, overs)
        = Inr (?q, if \<not> invulnerable p \<and> hp ?q \<le> 0 then overs @ [now + 1/2] else overs) \<and>
      hp ?q = hp (takeDamage ?d p) \<and>
      (invulnerable p \<longrightarrow> hp ?q = hp p) \<and>
      (\<not> invulnerable p \<longrightarrow>
         hp ?q = max 0 (hp p - max 0 (?d - defense p)) \<and>
         (\<forall>ins. length ins < 30 \<longrightarrow> hp (run_updates ins ?q) = hp ?q)) \<and>
      (hp ?q > 0 \<longrightarrow> pl_x ?q = sp_x s \<and> pl_y ?q = sp_y s \<and> vx ?q = 0 \<and> vy ?q = 0) \<and>
      (\<not> hp ?q > 0 \<longrightarrow> pl_x ?q = pl_x p \<and> pl_y ?q = pl_y p)"
    by blast
qed

lemma fallen_facts:
  "health (fall_logic (defaultSettings 800 600) \<lparr>sp_x = 100, sp_y = 900\<rparr>
             ((reset (defaultSettings 800 600))\<lparr>pl_y := 800\<rparr>)) = (80, True, 30, 0)"
  "\<not> isDashing (fall_logic (defaultSettings 800 600) \<lparr>sp_x = 100, sp_y = 900\<rparr>
             ((reset (defaultSettings 800 600))\<lparr>pl_y := 800\<rparr>))"
  "wallJumpTimer (fall_logic (defaultSettings 800 600) \<lparr>sp_x = 100, sp_y = 900\<rparr>
             ((reset (defaultSettings 800 600))\<lparr>pl_y := 800\<rparr>)) = 0"
  "vx (fall_logic (defaultSettings 800 600) \<lparr>sp_x = 100, sp_y = 900\<rparr>
             ((reset (defaultSettings 800 600))\<lparr>pl_y := 800\<rparr>)) = 0"
  "vy (fall_logic (defaultSettings 800 600) \<lparr>sp_x = 100, sp_y = 900\<rparr>
             ((reset (defaultSettings 800 600))\<lparr>pl_y := 800\<rparr>)) = 0"
  "pl_x (fall_logic (defaultSettings 800 600) \<lparr>sp_x = 100, sp_y = 900\<rparr>
             ((reset (defaultSettings 800 600))\<lparr>pl_y := 800\<rparr>)) = 100"
  "pl_y (fall_logic (defaultSettings 800 600) \<lparr>sp_x = 100, sp_y = 900\<rparr>
             ((reset (defaultSettings 800 600))\<lparr>pl_y := 800\<rparr>)) = 900"
  "pl_width (fall_logic (defaultSettings 800 600) \<lparr>sp_x = 100, sp_y = 900\<rparr>
             ((reset (defaultSettings 800 600))\<lparr>pl_y := 800\<rparr>)) = 30"
  by (simp_all add: fall_logic_def takeDamage_def Let_def health_def reset_def defaultSettings_def
      or_default_def)

text \<open>
  Claim C7 as stated fails on a level whose spawn point lies below the threshold (world
  height 600, spawn at \<open>y = 900\<close>). The body falls out once, at \<open>y = 800\<close>: the fall check
  takes \<open>hp\<close> from 100 to 80 and puts the body at the spawn point. On the next tick the body
  has moved to \<open>y = 900.4\<close> with \<open>vy = 0.4\<close> and the check teleports it a second time; after
  29 ticks \<open>hp\<close> is still 80, and on the 30th, the window having run out, the check
  applies the fall damage a second time.
\<close>

theorem fall_damage_once_counterexample:
  "pl_y ((reset (defaultSettings 800 600))\<lparr>pl_y := 800\<rparr>) > worldHeight (defaultSettings 800 600) + 100 \<and>
   hp (fall_logic (defaultSettings 800 600) \<lparr>sp_x = 100, sp_y = 900\<rparr>
         ((reset (defaultSettings 800 600))\<lparr>pl_y := 800\<rparr>)) = 80 \<and>
   pl_y (fall_logic (defaultSettings 800 600) \<lparr>sp_x = 100, sp_y = 900\<rparr>
         ((reset (defaultSettings 800 600))\<lparr>pl_y := 800\<rparr>)) = 900 \<and>
   pl_y (move_body (defaultSettings 800 600) no_keys [] [] (defaultSettings 800 600) (1/60)
         (fall_logic (defaultSettings 800 600) \<lparr>sp_x = 100, sp_y = 900\<rparr>
            ((reset (defaultSettings 800 600))\<lparr>pl_y := 800\<rparr>))) = 900 + 4/10 \<and>
   vy (move_body (defaultSettings 800 600) no_keys [] [] (defaultSettings 800 600) (1/60)
         (fall_logic (defaultSettings 800 600) \<lparr>sp_x = 100, sp_y = 900\<rparr>
            ((reset (defaultSettings 800 600))\<lparr>pl_y := 800\<rparr>))) = 4/10 \<and>
   pl_y (update_with (fall_logic (defaultSettings 800 600) \<lparr>sp_x = 100, sp_y = 900\<rparr>
            ((reset (defaultSettings 800 600))\<lparr>pl_y := 800\<rparr>))
         (idle_tick \<lparr>sp_x = 100, sp_y = 900\<rparr> (1/60))) = 900 \<and>
   vy (update_with (fall_logic (defaultSettings 800 600) \<lparr>sp_x = 100, sp_y = 900\<rparr>
            ((reset (defaultSettings 800 600))\<lparr>pl_y := 800\<rparr>))
         (idle_tick \<lparr>sp_x = 100, sp_y = 900\<rparr> (1/60))) = 0 \<and>
   hp (run_updates (replicate 29 (idle_tick \<lparr>sp_x = 100, sp_y = 900\<rparr> (1/60)))
         (fall_logic (defaultSettings 800 600) \<lparr>sp_x = 100, sp_y = 900\<rparr>
            ((reset (defaultSettings 800 600))\<lparr>pl_y := 800\<rparr>))) = 80 \<and>
   hp (run_updates (replicate 30 (idle_tick \<lparr>sp_x = 100, sp_y = 900\<rparr> (1/60)))
         (fall_logic (defaultSettings 800 600) \<lparr>sp_x = 100, sp_y = 900\<rparr>
            ((reset (defaultSettings 800 600))\<lparr>pl_y := 800\<rparr>))) = 60"
proof -
  let ?D = "defaultSettings 800 600"
  let ?S = "\<lparr>sp_x = 100, sp_y = 900\<rparr>"
  let ?T = "idle_tick ?S (1/60)"
  let ?F = "fall_logic ?D ?S ((reset ?D)\<lparr>pl_y := 800\<rparr>)"
  have b: "pl_y ((reset ?D)\<lparr>pl_y := 800\<rparr>) > worldHeight ?D + 100" by (simp add: defaultSettings_def)
  have h: "hp ?F = 80" "invulnerable ?F" "invulnerableTimer ?F = 30" "defense ?F = 0"
    using fallen_facts(1) by (simp_all add: health_def)
  have w: "wallJumpTimer ?F \<le> 0" by (simp add: fallen_facts)
  note t = idle_tick_respawn [OF fallen_facts(2) w fallen_facts(4-8), of "1/60"]
  have "health (tick_invulnerable ?F) = (80, True, 29, 0)"
    using h by (simp add: health_tick_invulnerable_cases)
  then have "health (takeDamage 20 (tick_invulnerable ?F)) = (80, True, 29, 0)"
    by (simp add: health_takeDamage) (simp add: health_def)
  then have "0 < hp (update_with ?F ?T)" using t(1) by (simp add: health_def)
  from t(4) [OF this] have again: "pl_y (update_with ?F ?T) = 900" "vy (update_with ?F ?T) = 0"
    by blast+
  have i: "real 29 < invulnerableTimer ?F" "0 < hp ?F" using h by simp_all
  note r = idle_ticks_respawn [OF fallen_facts(2) w fallen_facts(4-8) h(2) i, of "1/60"]
  let ?G = "run_updates (replicate 29 ?T) ?F"
  from r have g: "health ?G = (80, True, 1, 0)" "\<not> isDashing ?G" "wallJumpTimer ?G \<le> 0"
    "vx ?G = 0" "vy ?G = 0" "pl_x ?G = 100" "pl_y ?G = 900" "pl_width ?G = 30"
    using h by simp_all
  then have h29: "hp ?G = 80" by (simp add: health_def)
  note u = idle_tick_respawn [OF g(2-8), of "1/60"]
  have "health (tick_invulnerable ?G) = (80, False, 0, 0)"
    using g(1) by (simp add: health_tick_invulnerable_cases) (simp add: health_def)
  then have "health (takeDamage 20 (tick_invulnerable ?G)) = (60, True, 30, 0)"
    by (simp add: health_takeDamage) (simp add: health_def)
  then have "hp (update_with ?G ?T) = 60" using u(1) by (simp add: health_def)
  moreover have "replicate 30 ?T = replicate 29 ?T @ [?T]"
  proof -
    have "(30::nat) = Suc 29" by simp
    then have "replicate 30 ?T = ?T # replicate 29 ?T" by (simp only: replicate_Suc)
    then show ?thesis by (simp only: replicate_append_same)
  qed
  ultimately have h30: "hp (run_updates (replicate 30 ?T) ?F) = 60"
    by (simp add: run_updates_append run_updates_Cons run_updates_def)
  show ?thesis
    using b h(1) fallen_facts(7) t(2,3) again h29 h30 by blast
qed

theorem fall_damage_once_witness:
  "pl_y ((reset (defaultSettings 800 600))\<lparr>pl_y := 800\<rparr>) > worldHeight (defaultSettings 800 600) + 100 \<and>
   \<not> invulnerable ((reset (defaultSettings 800 600))\<lparr>pl_y := 800\<rparr>) \<and>
   fall_check (defaultSettings 800 600) (Some \<lparr>sp_x = 50, sp_y = 60\<rparr>) 7
        ((reset (defaultSettings 800 600))\<lparr>pl_y := 800\<rparr>, [])
     = Inr (fall_logic (defaultSettings 800 600) \<lparr>sp_x = 50, sp_y = 60\<rparr>
              ((reset (defaultSettings 800 600))\<lparr>pl_y := 800\<rparr>), []) \<and>
   hp (fall_logic (defaultSettings 800 600) \<lparr>sp_x = 50, sp_y = 60\<rparr>
        ((reset (defaultSettings 800 600))\<lparr>pl_y := 800\<rparr>)) = 80 \<and>
   pl_x (fall_logic (defaultSettings 800 600) \<lparr>sp_x = 50, sp_y = 60\<rparr>
        ((reset (defaultSettings 800 600))\<lparr>pl_y := 800\<rparr>)) = 50 \<and>
   pl_y (fall_logic (defaultSettings 800 600) \<lparr>sp_x = 50, sp_y = 60\<rparr>
        ((reset (defaultSettings 800 600))\<lparr>pl_y := 800\<rparr>)) = 60 \<and>
   length [idle_tick \<lparr>sp_x = 50, sp_y = 60\<rparr> (1/60)] < 30 \<and>
   hp (run_updates [idle_tick \<lparr>sp_x = 50, sp_y = 60\<rparr> (1/60)]
         (fall_logic (defaultSettings 800 600) \<lparr>sp_x = 50, sp_y = 60\<rparr>
            ((reset (defaultSettings 800 600))\<lparr>pl_y := 800\<rparr>))) = 80 \<and>
   \<not> pl_y (reset (defaultSettings 800 600)) > worldHeight (defaultSettings 800 600) + 100 \<and>
   fall_check (defaultSettings 800 600) None 7 (reset (defaultSettings 800 600), [])
     = Inr (reset (defaultSettings 800 600), []) \<and>
   (pl_y ((takeDamage 100 (reset (defaultSettings 800 600)))\<lparr>pl_y := 800\<rparr>)
      > worldHeight (defaultSettings 800 600) + 100 \<and>
    invulnerable ((takeDamage 100 (reset (defaultSettings 800 600)))\<lparr>pl_y := 800\<rparr>)) \<and>
   hp (fall_logic (defaultSettings 800 600) \<lparr>sp_x = 50, sp_y = 60\<rparr>
        ((takeDamage 100 (reset (defaultSettings 800 600)))\<lparr>pl_y := 800\<rparr>)) = 0 \<and>
   pl_y (fall_logic (defaultSettings 800 600) \<lparr>sp_x = 50, sp_y = 60\<rparr>
        ((takeDamage 100 (reset (defaultSettings 800 600)))\<lparr>pl_y := 800\<rparr>)) = 800"
proof -
  let ?D = "defaultSettings 800 600"
  let ?S = "\<lparr>sp_x = 50, sp_y = 60\<rparr>"
  let ?p = "(reset ?D)\<lparr>pl_y := 800\<rparr>"
  let ?z = "(takeDamage 100 (reset ?D))\<lparr>pl_y := 800\<rparr>"
  let ?T = "idle_tick ?S (1/60)"
  have b: "pl_y ?p > worldHeight ?D + 100" by (simp add: defaultSettings_def)
  have v: "\<not> invulnerable ?p" by (simp add: reset_def)
  have n: "\<not> pl_y (reset ?D) > worldHeight ?D + 100" by (simp add: defaultSettings_def reset_def)
  have e: "max 0 (hp ?p - max 0 (or_default (fallDamage ?D) 20 - defense ?p)) = 80"
    by (simp add: reset_def defaultSettings_def or_default_def)
  from fall_damage_once [where p = ?p and ls = ?D and s = ?S and now = 7 and overs = "[]"] b v
  have c: "fall_check ?D (Some ?S) 7 (?p, [])
        = Inr (fall_logic ?D ?S ?p,
               if \<not> invulnerable ?p \<and> hp (fall_logic ?D ?S ?p) \<le> 0 then [] @ [7 + 1/2] else [])"
    and h: "hp (fall_logic ?D ?S ?p) = max 0 (hp ?p - max 0 (or_default (fallDamage ?D) 20 - defense ?p))"
    and r: "\<forall>ins. length ins < 30 \<longrightarrow> hp (run_updates ins (fall_logic ?D ?S ?p)) = hp (fall_logic ?D ?S ?p)"
    and t: "hp (fall_logic ?D ?S ?p) > 0 \<longrightarrow>
         pl_x (fall_logic ?D ?S ?p) = sp_x ?S \<and> pl_y (fall_logic ?D ?S ?p) = sp_y ?S \<and>
         vx (fall_logic ?D ?S ?p) = 0 \<and> vy (fall_logic ?D ?S ?p) = 0"
    by blast+
  from h e have h': "hp (fall_logic ?D ?S ?p) = 80" by simp
  with c have c': "fall_check ?D (Some ?S) 7 (?p, []) = Inr (fall_logic ?D ?S ?p, [])" by simp
  from h' t have t': "pl_x (fall_logic ?D ?S ?p) = 50" "pl_y (fall_logic ?D ?S ?p) = 60" by simp_all
  have l: "length [?T] < 30" by simp
  with r have "hp (run_updates [?T] (fall_logic ?D ?S ?p)) = hp (fall_logic ?D ?S ?p)" by blast
  with h' have r': "hp (run_updates [?T] (fall_logic ?D ?S ?p)) = 80" by simp
  from fall_damage_once [where p = "reset ?D" and ls = ?D and spawn = None and now = 7 and overs = "[]"] n
  have s: "fall_check ?D None 7 (reset ?D, []) = Inr (reset ?D, [])" by blast
  have z: "pl_y ?z > worldHeight ?D + 100 \<and> invulnerable ?z"
    by (simp add: defaultSettings_def takeDamage_def Let_def reset_def)
  have hz: "hp ?z = 0" "pl_y ?z = 800"
    by (simp_all add: defaultSettings_def takeDamage_def Let_def reset_def)
  from fall_damage_once [where p = ?z and ls = ?D and s = ?S] z
  have "hp (fall_logic ?D ?S ?z) = hp ?z"
    and "\<not> hp (fall_logic ?D ?S ?z) > 0 \<longrightarrow> pl_y (fall_logic ?D ?S ?z) = pl_y ?z"
    by blast+
  then have d: "hp (fall_logic ?D ?S ?z) = 0" "pl_y (fall_logic ?D ?S ?z) = 800"
    using hz by simp_all
  show ?thesis using b v c' h' t' l r' n s z d by blast
qed


















section \<open>Properties of lasers and scripted motion\<close>

lemma clip_right_cases:
  "clip_right sx sy e pf = (if ahead sx sy pf \<and> ob_x pf < e then ob_x pf else e)"
  by (auto simp: clip_right_def ahead_def)

lemma foldl_clip_right_le: "foldl (clip_right sx sy) e pfs \<le> e"
proof (induction pfs arbitrary: e)
  case Nil
  show ?case by simp
next
  case (Cons pf pfs)
  have "foldl (clip_right sx sy) (clip_right sx sy e pf) pfs \<le> clip_right sx sy e pf"
    by (rule Cons.IH)
  also have "clip_right sx sy e pf \<le> e" by (simp add: clip_right_cases)
  finally show ?case by simp
qed

lemma foldl_clip_right_lower:
  "pf \<in> set pfs \<Longrightarrow> ahead sx sy pf \<Longrightarrow> foldl (clip_right sx sy) e pfs \<le> ob_x pf"
proof (induction pfs arbitrary: e)
  case Nil
  then show ?case by simp
next
  case (Cons a pfs)
  show ?case
  proof (cases "pf = a")
    case True
    have "foldl (clip_right sx sy) (clip_right sx sy e a) pfs \<le> clip_right sx sy e a"
      by (rule foldl_clip_right_le)
    also have "clip_right sx sy e a \<le> ob_x a"
      using Cons.prems(2) True by (simp add: clip_right_cases)
    finally show ?thesis using True by simp
  next
    case False
    then have "pf \<in> set pfs" using Cons.prems(1) by simp
    then show ?thesis using Cons.IH Cons.prems(2) by simp
  qed
qed

lemma foldl_clip_right_attained:
  "foldl (clip_right sx sy) e pfs = e \<or>
   (\<exists>pf \<in> set pfs. ahead sx sy pf \<and> ob_x pf < e \<and> foldl (clip_right sx sy) e pfs = ob_x pf)"
proof (induction pfs arbitrary: e)
  case Nil
  show ?case by simp
next
  case (Cons a pfs)
  let ?e = "clip_right sx sy e a"
  from Cons.IH [of ?e] show ?case
  proof
    assume h: "foldl (clip_right sx sy) ?e pfs = ?e"
    show ?thesis
    proof (cases "ahead sx sy a \<and> ob_x a < e")
      case True
      then have "?e = ob_x a" by (simp add: clip_right_cases)
      with h True show ?thesis by auto
    next
      case False
      then have "?e = e" by (auto simp: clip_right_cases)
      with h show ?thesis by simp
    qed
  next
    assume "\<exists>pf \<in> set pfs. ahead sx sy pf \<and> ob_x pf < ?e \<and> foldl (clip_right sx sy) ?e pfs = ob_x pf"
    then obtain pf where p: "pf \<in> set pfs" "ahead sx sy pf" "ob_x pf < ?e"
      "foldl (clip_right sx sy) ?e pfs = ob_x pf" by blast
    have "?e \<le> e" by (simp add: clip_right_cases)
    with p show ?thesis by auto
  qed
qed

lemma getLaserBounds_right:
  assumes "rotation_of trap = 0"
  shows "getLaserBounds trap pfs =
     \<lparr> minX = min (ob_x trap - ob_width trap / 2)
                (foldl (clip_right (ob_x trap - ob_width trap / 2) (ob_y trap)) (ob_x trap + ob_width trap / 2) pfs),
       maxX = max (ob_x trap - ob_width trap / 2)
                (foldl (clip_right (ob_x trap - ob_width trap / 2) (ob_y trap)) (ob_x trap + ob_width trap / 2) pfs),
       minY = ob_y trap, maxY = ob_y trap,
       lb_startX = ob_x trap - ob_width trap / 2, lb_startY = ob_y trap,
       lb_endX = foldl (clip_right (ob_x trap - ob_width trap / 2) (ob_y trap)) (ob_x trap + ob_width trap / 2) pfs,
       lb_endY = ob_y trap \<rparr>"
  by (simp add: getLaserBounds_def assms Let_def)

text \<open>
  Claim C4, as the code has it. For a laser with rotation 0 the beam starts at \<open>x - width/2\<close>
  and runs along \<open>y\<close>. If no platform of the list blocks it, its end is the nominal end
  \<open>x + width/2\<close>; otherwise its end is the left face of a blocking platform, and no blocking
  platform has its left face nearer: the beam ends at the nearest blocking platform. A
  platform blocks when the beam passes through its rectangle and its left face is not
  behind the emitter and before the nominal end; a platform that the beam passes through
  with its left face behind the emitter does not block. The bounds are a function of the
  trap and of the platform list handed in, with nothing remembered between calls;
  \<open>trap_hits\<close> calls it with the platforms as they are after the tick's movement.
\<close>

theorem laser_beam_clipped:
  assumes "rotation_of trap = 0"
  shows "lb_startX (getLaserBounds trap pfs) = ob_x trap - ob_width trap / 2 \<and>
         lb_startY (getLaserBounds trap pfs) = ob_y trap \<and>
         lb_endY (getLaserBounds trap pfs) = ob_y trap \<and>
         (\<not> list_ex (blocks_beam trap) pfs \<longrightarrow>
            lb_endX (getLaserBounds trap pfs) = ob_x trap + ob_width trap / 2) \<and>
         (list_ex (blocks_beam trap) pfs \<longrightarrow>
            (\<exists>pf \<in> set pfs. blocks_beam trap pf \<and> lb_endX (getLaserBounds trap pfs) = ob_x pf) \<and>
            (\<forall>pf \<in> set pfs. blocks_beam trap pf \<longrightarrow> lb_endX (getLaserBounds trap pfs) \<le> ob_x pf)) \<and>
         (0 \<le> ob_width pf \<longrightarrow>
            (blocks_beam trap pf \<longleftrightarrow>
               beam_crosses trap pf \<and> ob_x trap - ob_width trap / 2 \<le> ob_x pf \<and>
               ob_x pf < ob_x trap + ob_width trap / 2)) \<and>
         (ob_x pf < ob_x trap - ob_width trap / 2 \<longrightarrow> \<not> blocks_beam trap pf)"
proof -
  let ?sx = "ob_x trap - ob_width trap / 2"
  let ?n = "ob_x trap + ob_width trap / 2"
  let ?e = "foldl (clip_right ?sx (ob_y trap)) ?n pfs"
  have b: "blocks_beam trap pf \<longleftrightarrow> ahead ?sx (ob_y trap) pf \<and> ob_x pf < ?n" for pf
    by (auto simp: blocks_beam_def ahead_def)
  have e: "lb_endX (getLaserBounds trap pfs) = ?e"
    by (simp add: getLaserBounds_right [OF assms])
  have none: "?e = ?n" if "\<not> list_ex (blocks_beam trap) pfs"
    using foldl_clip_right_attained [of ?sx "ob_y trap" ?n pfs] that
    by (auto simp: list_ex_iff b)
  have some: "\<exists>pf \<in> set pfs. blocks_beam trap pf \<and> ?e = ob_x pf" if "list_ex (blocks_beam trap) pfs"
  proof -
    from that obtain q where q: "q \<in> set pfs" "blocks_beam trap q" by (auto simp: list_ex_iff)
    then have "?e \<le> ob_x q" by (simp add: b foldl_clip_right_lower)
    then have "?e \<noteq> ?n" using q(2) by (simp add: b)
    then show ?thesis
      using foldl_clip_right_attained [of ?sx "ob_y trap" ?n pfs] by (auto simp: b)
  qed
  have low: "\<forall>pf \<in> set pfs. blocks_beam trap pf \<longrightarrow> ?e \<le> ob_x pf"
    by (simp add: b foldl_clip_right_lower)
  have s: "lb_startX (getLaserBounds trap pfs) = ?sx" "lb_startY (getLaserBounds trap pfs) = ob_y trap"
    "lb_endY (getLaserBounds trap pfs) = ob_y trap"
    by (simp_all add: getLaserBounds_right [OF assms])
  have c: "0 \<le> ob_width pf \<longrightarrow>
            (blocks_beam trap pf \<longleftrightarrow> beam_crosses trap pf \<and> ?sx \<le> ob_x pf \<and> ob_x pf < ?n)"
    by (auto simp: blocks_beam_def beam_crosses_def)
  have d: "ob_x pf < ?sx \<longrightarrow> \<not> blocks_beam trap pf"
    by (simp add: blocks_beam_def)
  show ?thesis
    unfolding e using s none some low c d by blast
qed

text \<open>
  Claim C4 as stated fails for a platform that holds the emitter: the laser at \<open>x = 800\<close>
  of length 400 fires to the right from \<open>x = 600\<close> along \<open>y = 300\<close>; the platform covers
  \<open>550..650\<close> by \<open>250..350\<close>, so the beam runs through its rectangle from 600 to 650, and
  yet the beam ends at the nominal end 1000, not at the platform's left face 550.
\<close>

theorem laser_beam_clipped_counterexample:
  "rotation_of ((static_platform 800 300 400 10)\<lparr>ob_type := Laser, rotation := Some 0\<rparr>) = 0 \<and>
   lb_startX (getLaserBounds ((static_platform 800 300 400 10)\<lparr>ob_type := Laser, rotation := Some 0\<rparr>)
     [static_platform 550 250 100 100]) = 600 \<and>
   beam_crosses ((static_platform 800 300 400 10)\<lparr>ob_type := Laser, rotation := Some 0\<rparr>)
     (static_platform 550 250 100 100) \<and>
   ob_x (static_platform 550 250 100 100) = 550 \<and>
   lb_endX (getLaserBounds ((static_platform 800 300 400 10)\<lparr>ob_type := Laser, rotation := Some 0\<rparr>)
     [static_platform 550 250 100 100]) = 1000"
  by (simp add: getLaserBounds_def rotation_of_def js_rem_def Let_def clip_right_def beam_crosses_def
      static_platform_def)

theorem laser_beam_clipped_witness:
  "rotation_of ((static_platform 800 300 400 10)\<lparr>ob_type := Laser, rotation := Some 0\<rparr>) = 0 \<and>
   lb_startX (getLaserBounds ((static_platform 800 300 400 10)\<lparr>ob_type := Laser, rotation := Some 0\<rparr>)
     [static_platform 900 250 50 100, static_platform 750 250 50 100, static_platform 650 400 50 100]) = 600 \<and>
   lb_endX (getLaserBounds ((static_platform 800 300 400 10)\<lparr>ob_type := Laser, rotation := Some 0\<rparr>)
     [static_platform 900 250 50 100, static_platform 750 250 50 100, static_platform 650 400 50 100]) = 750 \<and>
   lb_endX (getLaserBounds ((static_platform 800 300 400 10)\<lparr>ob_type := Laser, rotation := Some 0\<rparr>)
     [static_platform 650 400 50 100]) = 1000 \<and>
   blocks_beam ((static_platform 800 300 400 10)\<lparr>ob_type := Laser, rotation := Some 0\<rparr>)
     (static_platform 750 250 50 100) \<and>
   beam_crosses ((static_platform 800 300 400 10)\<lparr>ob_type := Laser, rotation := Some 0\<rparr>)
     (static_platform 750 250 50 100) \<and>
   ob_x (static_platform 550 250 100 100)
     < ob_x ((static_platform 800 300 400 10)\<lparr>ob_type := Laser, rotation := Some 0\<rparr>)
       - ob_width ((static_platform 800 300 400 10)\<lparr>ob_type := Laser, rotation := Some 0\<rparr>) / 2 \<and>
   \<not> blocks_beam ((static_platform 800 300 400 10)\<lparr>ob_type := Laser, rotation := Some 0\<rparr>)
     (static_platform 550 250 100 100)"
proof -
  let ?L = "(static_platform 800 300 400 10)\<lparr>ob_type := Laser, rotation := Some 0\<rparr>"
  let ?A = "static_platform 900 250 50 100"
  let ?B = "static_platform 750 250 50 100"
  let ?C = "static_platform 650 400 50 100"
  let ?E = "static_platform 550 250 100 100"
  have r: "rotation_of ?L = 0" by (simp add: rotation_of_def js_rem_def)
  have g: "ob_x ?L = 800" "ob_y ?L = 300" "ob_width ?L = 400" by (simp_all add: static_platform_def)
  have bl: "blocks_beam ?L ?A" "blocks_beam ?L ?B" "\<not> blocks_beam ?L ?C"
    by (simp_all add: blocks_beam_def g) (simp_all add: static_platform_def)
  have x: "ob_x ?A = 900" "ob_x ?B = 750" by (simp_all add: static_platform_def)
  note w1 = laser_beam_clipped [OF r, of "[?A, ?B, ?C]" ?B]
  have e1: "list_ex (blocks_beam ?L) [?A, ?B, ?C]" using bl by simp
  from w1 e1 have s: "lb_startX (getLaserBounds ?L [?A, ?B, ?C]) = ob_x ?L - ob_width ?L / 2"
    and ex: "\<exists>pf \<in> set [?A, ?B, ?C]. blocks_beam ?L pf \<and> lb_endX (getLaserBounds ?L [?A, ?B, ?C]) = ob_x pf"
    and lo: "\<forall>pf \<in> set [?A, ?B, ?C]. blocks_beam ?L pf \<longrightarrow> lb_endX (getLaserBounds ?L [?A, ?B, ?C]) \<le> ob_x pf"
    by blast+
  from lo bl(2) have le: "lb_endX (getLaserBounds ?L [?A, ?B, ?C]) \<le> 750" by (simp add: x)
  from ex bl(3) have "lb_endX (getLaserBounds ?L [?A, ?B, ?C]) = 900
      \<or> lb_endX (getLaserBounds ?L [?A, ?B, ?C]) = 750"
    by (auto simp: x)
  with le have r2: "lb_endX (getLaserBounds ?L [?A, ?B, ?C]) = 750" by auto
  have r1: "lb_startX (getLaserBounds ?L [?A, ?B, ?C]) = 600" using s by (simp add: g)
  note w2 = laser_beam_clipped [OF r, of "[?C]" ?E]
  have e2: "\<not> list_ex (blocks_beam ?L) [?C]" using bl(3) by simp
  from w2 e2 have "lb_endX (getLaserBounds ?L [?C]) = ob_x ?L + ob_width ?L / 2" by blast
  then have r3: "lb_endX (getLaserBounds ?L [?C]) = 1000" by (simp add: g)
  have wb: "0 \<le> ob_width ?B" by (simp add: static_platform_def)
  from w1 wb bl(2) have r4: "beam_crosses ?L ?B" by blast
  have be: "ob_x ?E < ob_x ?L - ob_width ?L / 2" by (simp add: static_platform_def)
  from w2 be have r5: "\<not> blocks_beam ?L ?E" by blast
  show ?thesis using r r1 r2 r3 bl(2) r4 be r5 by blast
qed

lemma hypot_scale: "hypot (c * a) (c * b) = \<bar>c\<bar> * hypot a b"
proof -
  have "(c * a) * (c * a) + (c * b) * (c * b) = (c * c) * (a * a + b * b)"
    by (simp add: algebra_simps)
  then show ?thesis
    by (simp add: hypot_def real_sqrt_mult)
qed

lemma hypot_zero_right: "hypot a 0 = \<bar>a\<bar>"
  by (simp add: hypot_def)

lemma hypot_nonneg: "0 \<le> hypot a b"
  by (simp add: hypot_def)

lemma shift_of_base_init [simp]:
  "shift_of (obj\<lparr>baseX := bx, baseY := by\<rparr>) = shift_of obj"
  by (simp add: shift_of_def)

lemma base_of_init:
  "base_of (obj\<lparr>baseX := Some (fst (base_of obj)), baseY := Some (snd (base_of obj))\<rparr>) = base_of obj"
  by (simp add: base_of_def num_init_def)

lemma start_of_init:
  "start_of (obj\<lparr>baseX := Some (fst (base_of obj)), baseY := Some (snd (base_of obj))\<rparr>) = start_of obj"
  by (simp add: start_of_def base_of_def num_init_def)

lemma forward_of_init:
  "forward_of (obj\<lparr>baseX := bx, baseY := by\<rparr>) = forward_of obj"
  by (simp add: forward_of_def)

lemma target_of_init:
  "target_of (obj\<lparr>baseX := Some (fst (base_of obj)), baseY := Some (snd (base_of obj))\<rparr>) = target_of obj"
  by (simp add: target_of_def start_of_init forward_of_init)

lemma dist_of_init:
  "dist_of (obj\<lparr>baseX := Some (fst (base_of obj)), baseY := Some (snd (base_of obj))\<rparr>) = dist_of obj"
  by (simp add: dist_of_def target_of_init base_of_init)

lemma moveStep_of_init:
  "moveStep_of dt (obj\<lparr>baseX := bx, baseY := by\<rparr>) = moveStep_of dt obj"
  by (simp add: moveStep_of_def)

lemma delta_of_init:
  "delta_of dt (obj\<lparr>baseX := Some (fst (base_of obj)), baseY := Some (snd (base_of obj))\<rparr>) = delta_of dt obj"
  by (simp add: delta_of_def target_of_init base_of_init dist_of_init moveStep_of_init)

lemma trap_box_hits_init:
  "trap_box_hits (obj\<lparr>baseX := bx, baseY := by\<rparr>) = trap_box_hits obj"
  by (intro ext) (simp add: trap_box_hits_def)

lemma willCollide_init:
  "willCollide pfs dt (obj\<lparr>baseX := Some (fst (base_of obj)), baseY := Some (snd (base_of obj))\<rparr>)
     = willCollide pfs dt obj"
  by (simp add: willCollide_def delta_of_init base_of_init trap_box_hits_init)

lemma moves_linearly_init:
  "moves_linearly (obj\<lparr>baseX := bx, baseY := by\<rparr>) = moves_linearly obj"
  by (simp add: moves_linearly_def)

lemma pingpong_init:
  "pingpong pfs dt isPlatform (obj\<lparr>baseX := Some (fst (base_of obj)), baseY := Some (snd (base_of obj))\<rparr>)
   = (pingpong pfs dt isPlatform obj)"
  unfolding pingpong_def Let_def
  by (simp add: start_of_init dist_of_init moveStep_of_init target_of_init forward_of_init
      willCollide_init base_of_init delta_of_init)

text \<open>What remains of an object after the ping-pong block: start, base and direction.\<close>

lemma pingpong_start: "start_of (pingpong pfs dt isPlatform obj) = start_of obj"
  by (simp add: pingpong_def Let_def start_of_def num_init_def)

lemma pingpong_shift: "shift_of (pingpong pfs dt isPlatform obj) = shift_of obj"
  by (simp add: pingpong_def Let_def shift_of_def)

lemma pingpong_snap:
  "dist_of obj \<le> moveStep_of dt obj \<Longrightarrow>
   base_of (pingpong pfs dt isPlatform obj) = target_of obj \<and>
   forward_of (pingpong pfs dt isPlatform obj) = (\<not> forward_of obj)"
  by (simp add: pingpong_def Let_def base_of_def forward_of_def num_init_def)

lemma pingpong_blocked:
  "\<not> dist_of obj \<le> moveStep_of dt obj \<Longrightarrow> \<not> isPlatform \<Longrightarrow> willCollide pfs dt obj \<Longrightarrow>
   base_of (pingpong pfs dt isPlatform obj) = base_of obj \<and>
   forward_of (pingpong pfs dt isPlatform obj) = (\<not> forward_of obj)"
  by (simp add: pingpong_def Let_def base_of_def forward_of_def num_init_def)

lemma pingpong_advance:
  "\<not> dist_of obj \<le> moveStep_of dt obj \<Longrightarrow> isPlatform \<or> \<not> willCollide pfs dt obj \<Longrightarrow>
   base_of (pingpong pfs dt isPlatform obj)
     = (fst (base_of obj) + fst (delta_of dt obj), snd (base_of obj) + snd (delta_of dt obj)) \<and>
   forward_of (pingpong pfs dt isPlatform obj) = forward_of obj"
  by (auto simp: pingpong_def Let_def base_of_def forward_of_def num_init_def)

lemma delta_length:
  assumes "0 < dist_of obj"
  shows "hypot (fst (delta_of dt obj)) (snd (delta_of dt obj)) = \<bar>moveStep_of dt obj\<bar>"
proof -
  let ?dx = "fst (target_of obj) - fst (base_of obj)"
  let ?dy = "snd (target_of obj) - snd (base_of obj)"
  let ?c = "moveStep_of dt obj / dist_of obj"
  have "hypot (fst (delta_of dt obj)) (snd (delta_of dt obj)) = hypot (?c * ?dx) (?c * ?dy)"
    by (simp add: delta_of_def mult_ac)
  also have "\<dots> = \<bar>?c\<bar> * dist_of obj"
    by (simp only: hypot_scale dist_of_def)
  also have "\<dots> = \<bar>moveStep_of dt obj\<bar>"
    using assms by simp
  finally show ?thesis .
qed

lemma remaining_after_delta:
  assumes "0 \<le> moveStep_of dt obj" "moveStep_of dt obj < dist_of obj"
  shows "hypot (fst (target_of obj) - (fst (base_of obj) + fst (delta_of dt obj)))
               (snd (target_of obj) - (snd (base_of obj) + snd (delta_of dt obj)))
         = dist_of obj - moveStep_of dt obj"
proof -
  let ?dx = "fst (target_of obj) - fst (base_of obj)"
  let ?dy = "snd (target_of obj) - snd (base_of obj)"
  let ?c = "1 - moveStep_of dt obj / dist_of obj"
  have d: "0 < dist_of obj" using assms by simp
  have c: "0 \<le> ?c" using assms d by simp
  have "fst (target_of obj) - (fst (base_of obj) + fst (delta_of dt obj)) = ?c * ?dx"
    "snd (target_of obj) - (snd (base_of obj) + snd (delta_of dt obj)) = ?c * ?dy"
    using d by (simp_all add: delta_of_def field_simps)
  then have "hypot (fst (target_of obj) - (fst (base_of obj) + fst (delta_of dt obj)))
               (snd (target_of obj) - (snd (base_of obj) + snd (delta_of dt obj)))
      = \<bar>?c\<bar> * dist_of obj"
    by (simp only: hypot_scale dist_of_def)
  also have "\<dots> = ?c * dist_of obj" using c by simp
  also have "\<dots> = dist_of obj - moveStep_of dt obj"
    using d by (simp add: algebra_simps)
  finally show ?thesis .
qed

lemma positive_not_falsy: "positive v \<Longrightarrow> \<not> falsy v"
  by (auto simp: positive_def falsy_def split: option.splits)

lemma pingpong_osc_fields:
  "oscSpeed (pingpong pfs dt isPlatform obj) = oscSpeed obj"
  "oscX (pingpong pfs dt isPlatform obj) = oscX obj"
  "oscY (pingpong pfs dt isPlatform obj) = oscY obj"
  "oscTime (pingpong pfs dt isPlatform obj) = oscTime obj"
  by (simp_all add: pingpong_def Let_def)

lemma osc_pingpong:
  "oscillates (pingpong pfs dt isPlatform obj) = oscillates obj"
  "oscTime_of dt (pingpong pfs dt isPlatform obj) = oscTime_of dt obj"
  "osc_offset dt (pingpong pfs dt isPlatform obj) = osc_offset dt obj"
  by (simp_all only: oscillates_def oscTime_of_def osc_offset_def pingpong_osc_fields)

lemma base_of_pingpong_stored:
  "\<exists>bx by. baseX (pingpong pfs dt isPlatform obj) = Some bx \<and>
           baseY (pingpong pfs dt isPlatform obj) = Some by"
  by (simp add: pingpong_def Let_def)

lemma move_object_linear:
  assumes "moves_linearly obj"
  shows "move_object pfs dt isPlatform obj =
     (let o2 = pingpong pfs dt isPlatform obj;
          o3 = (if oscillates obj then o2\<lparr>oscTime := Some (oscTime_of dt obj)\<rparr> else o2)
      in o3\<lparr>ob_x := fst (base_of o2) + fst (osc_offset dt obj),
            ob_y := snd (base_of o2) + snd (osc_offset dt obj)\<rparr>)"
proof -
  have "\<not> falsy (ob_speed obj)"
    using assms by (simp add: moves_linearly_def positive_not_falsy)
  then show ?thesis
    unfolding move_object_def Let_def
    by (simp add: assms moves_linearly_init pingpong_init osc_pingpong)
qed

lemma move_object_base:
  assumes "moves_linearly obj"
  shows "base_of (move_object pfs dt isPlatform obj) = base_of (pingpong pfs dt isPlatform obj)"
    and "forward_of (move_object pfs dt isPlatform obj) = forward_of (pingpong pfs dt isPlatform obj)"
    and "start_of (move_object pfs dt isPlatform obj) = start_of obj"
    and "shift_of (move_object pfs dt isPlatform obj) = shift_of obj"
    and "ob_x (move_object pfs dt isPlatform obj)
           = fst (base_of (move_object pfs dt isPlatform obj)) + fst (osc_offset dt obj)"
    and "ob_y (move_object pfs dt isPlatform obj)
           = snd (base_of (move_object pfs dt isPlatform obj)) + snd (osc_offset dt obj)"
proof -
  define o2 where "o2 = pingpong pfs dt isPlatform obj"
  obtain bx "by" where s: "baseX o2 = Some bx" "baseY o2 = Some by"
    unfolding o2_def using base_of_pingpong_stored by blast
  have m: "move_object pfs dt isPlatform obj =
     (if oscillates obj then o2\<lparr>oscTime := Some (oscTime_of dt obj)\<rparr> else o2)
       \<lparr>ob_x := fst (base_of o2) + fst (osc_offset dt obj),
        ob_y := snd (base_of o2) + snd (osc_offset dt obj)\<rparr>"
    by (simp add: move_object_linear [OF assms] Let_def o2_def)
  show b: "base_of (move_object pfs dt isPlatform obj) = base_of (pingpong pfs dt isPlatform obj)"
    unfolding o2_def [symmetric] m using s by (simp add: base_of_def num_init_def)
  show "forward_of (move_object pfs dt isPlatform obj) = forward_of (pingpong pfs dt isPlatform obj)"
    unfolding o2_def [symmetric] m by (simp add: forward_of_def)
  have "start_of (move_object pfs dt isPlatform obj) = start_of o2"
    unfolding m using s by (simp add: start_of_def base_of_def num_init_def split: option.splits)
  then show "start_of (move_object pfs dt isPlatform obj) = start_of obj"
    by (simp add: o2_def pingpong_start)
  have "shift_of (move_object pfs dt isPlatform obj) = shift_of o2"
    unfolding m by (simp add: shift_of_def)
  then show "shift_of (move_object pfs dt isPlatform obj) = shift_of obj"
    by (simp add: o2_def pingpong_shift)
  show "ob_x (move_object pfs dt isPlatform obj)
           = fst (base_of (move_object pfs dt isPlatform obj)) + fst (osc_offset dt obj)"
    unfolding b unfolding o2_def [symmetric] m by simp
  show "ob_y (move_object pfs dt isPlatform obj)
           = snd (base_of (move_object pfs dt isPlatform obj)) + snd (osc_offset dt obj)"
    unfolding b unfolding o2_def [symmetric] m by simp
qed

lemma pingpong_without_osc:
  "base_of (pingpong pfs dt isPlatform (obj\<lparr>oscSpeed := v\<rparr>)) = base_of (pingpong pfs dt isPlatform obj)"
proof -
  have a: "base_of (obj\<lparr>oscSpeed := v\<rparr>) = base_of obj" by (simp add: base_of_def)
  have b: "start_of (obj\<lparr>oscSpeed := v\<rparr>) = start_of obj" by (simp add: start_of_def a)
  have c: "forward_of (obj\<lparr>oscSpeed := v\<rparr>) = forward_of obj" by (simp add: forward_of_def)
  have d: "shift_of (obj\<lparr>oscSpeed := v\<rparr>) = shift_of obj" by (simp add: shift_of_def)
  have e: "target_of (obj\<lparr>oscSpeed := v\<rparr>) = target_of obj" by (simp add: target_of_def b c d)
  have f: "dist_of (obj\<lparr>oscSpeed := v\<rparr>) = dist_of obj" by (simp add: dist_of_def e a)
  have g: "moveStep_of dt (obj\<lparr>oscSpeed := v\<rparr>) = moveStep_of dt obj" by (simp add: moveStep_of_def)
  have h: "delta_of dt (obj\<lparr>oscSpeed := v\<rparr>) = delta_of dt obj" by (simp add: delta_of_def e a f g)
  have i: "trap_box_hits (obj\<lparr>oscSpeed := v\<rparr>) = trap_box_hits obj"
    by (intro ext) (simp add: trap_box_hits_def)
  have j: "willCollide pfs dt (obj\<lparr>oscSpeed := v\<rparr>) = willCollide pfs dt obj"
    by (simp add: willCollide_def h a i)
  show ?thesis
    unfolding pingpong_def Let_def
    by (simp add: a b c e f g h j base_of_def num_init_def)
qed

lemma moveStep_nonneg:
  "moves_linearly obj \<Longrightarrow> 0 \<le> dt \<Longrightarrow> 0 \<le> moveStep_of dt obj"
  by (auto simp: moves_linearly_def positive_def moveStep_of_def num_init_def split: option.splits)

lemma moveStep_pos:
  "moves_linearly obj \<Longrightarrow> 0 < dt \<Longrightarrow> 0 < moveStep_of dt obj"
  by (auto simp: moves_linearly_def positive_def moveStep_of_def num_init_def split: option.splits)

lemma move_object_advance:
  assumes m: "moves_linearly obj" and far: "moveStep_of dt obj < dist_of obj"
    and free: "isPlatform \<or> \<not> willCollide pfs dt obj"
  shows "base_of (move_object pfs dt isPlatform obj)
           = (fst (base_of obj) + fst (delta_of dt obj), snd (base_of obj) + snd (delta_of dt obj))"
    and "forward_of (move_object pfs dt isPlatform obj) = forward_of obj"
    and "target_of (move_object pfs dt isPlatform obj) = target_of obj"
    and "0 \<le> dt \<Longrightarrow>
         hypot (fst (base_of (move_object pfs dt isPlatform obj)) - fst (base_of obj))
               (snd (base_of (move_object pfs dt isPlatform obj)) - snd (base_of obj))
           = moveStep_of dt obj"
    and "0 \<le> dt \<Longrightarrow> dist_of (move_object pfs dt isPlatform obj) = dist_of obj - moveStep_of dt obj"
proof -
  let ?M = "move_object pfs dt isPlatform obj"
  have nf: "\<not> dist_of obj \<le> moveStep_of dt obj" using far by simp
  note pp = pingpong_advance [OF nf free]
  show b: "base_of ?M = (fst (base_of obj) + fst (delta_of dt obj), snd (base_of obj) + snd (delta_of dt obj))"
    using pp by (simp add: move_object_base(1) [OF m])
  show f: "forward_of ?M = forward_of obj"
    using pp by (simp add: move_object_base(2) [OF m])
  show t: "target_of ?M = target_of obj"
    by (simp add: target_of_def f move_object_base(3,4) [OF m])
  { assume dt: "0 \<le> dt"
    have s: "0 \<le> moveStep_of dt obj" using m dt by (rule moveStep_nonneg)
    then have d: "0 < dist_of obj" using far by simp
    have "hypot (fst (base_of ?M) - fst (base_of obj)) (snd (base_of ?M) - snd (base_of obj))
        = hypot (fst (delta_of dt obj)) (snd (delta_of dt obj))"
      by (simp add: b)
    also have "\<dots> = \<bar>moveStep_of dt obj\<bar>" using d by (rule delta_length)
    finally show "hypot (fst (base_of ?M) - fst (base_of obj)) (snd (base_of ?M) - snd (base_of obj))
        = moveStep_of dt obj"
      using s by simp
    have "dist_of ?M = hypot (fst (target_of obj) - (fst (base_of obj) + fst (delta_of dt obj)))
               (snd (target_of obj) - (snd (base_of obj) + snd (delta_of dt obj)))"
      by (simp add: dist_of_def t b)
    also have "\<dots> = dist_of obj - moveStep_of dt obj"
      using s far by (rule remaining_after_delta)
    finally show "dist_of ?M = dist_of obj - moveStep_of dt obj" . }
qed

lemma move_platforms_map:
  "fst (foldl (move_platform dt) (done, p) pfs) = done @ map (move_object [] dt True) pfs"
proof (induction pfs arbitrary: "done" p)
  case Nil
  show ?case by simp
next
  case (Cons pf pfs)
  have "move_platform dt (done, p) pf
      = (done @ [move_object [] dt True pf], carry True pf (move_object [] dt True pf) p)"
    by (simp add: move_platform_def applyMovement_def Let_def)
  then show ?case using Cons.IH by simp
qed

lemma move_traps_map:
  "fst (foldl (move_trap pfs dt) (done, p) ts)
     = done @ map (\<lambda>t. if dormant t then t else move_object pfs dt False t) ts"
proof (induction ts arbitrary: "done" p)
  case Nil
  show ?case by simp
next
  case (Cons t ts)
  have "\<exists>q. move_trap pfs dt (done, p) t
      = (done @ [if dormant t then t else move_object pfs dt False t], q)"
    by (simp add: move_trap_def applyMovement_def Let_def)
  then obtain q where "move_trap pfs dt (done, p) t
      = (done @ [if dormant t then t else move_object pfs dt False t], q)" ..
  then show ?case using Cons.IH by simp
qed

lemma movement_objects:
  "lv_platforms (g_level (movement dt g)) = map (move_object [] dt True) (lv_platforms (g_level g))"
  "lv_traps (g_level (movement dt g))
     = map (\<lambda>t. if dormant t then t
                 else move_object (map (move_object [] dt True) (lv_platforms (g_level g))) dt False t)
         (lv_traps (g_level g))"
proof -
  obtain pfs p1 where a: "foldl (move_platform dt) ([], g_player g) (lv_platforms (g_level g)) = (pfs, p1)"
    by fastforce
  obtain ts p2 where b: "foldl (move_trap pfs dt) ([], p1) (lv_traps (g_level g)) = (ts, p2)"
    by fastforce
  have e: "movement dt g = g\<lparr>g_player := p2, g_level := (g_level g)\<lparr>lv_platforms := pfs, lv_traps := ts\<rparr>\<rparr>"
    using a b by (simp add: movement_def)
  have p: "pfs = map (move_object [] dt True) (lv_platforms (g_level g))"
    using move_platforms_map [of dt "[]" "g_player g" "lv_platforms (g_level g)"] a by simp
  have t: "ts = map (\<lambda>t. if dormant t then t else move_object pfs dt False t) (lv_traps (g_level g))"
    using move_traps_map [of pfs dt "[]" p1 "lv_traps (g_level g)"] b by simp
  show "lv_platforms (g_level (movement dt g)) = map (move_object [] dt True) (lv_platforms (g_level g))"
    by (simp add: e p)
  show "lv_traps (g_level (movement dt g))
     = map (\<lambda>t. if dormant t then t
                 else move_object (map (move_object [] dt True) (lv_platforms (g_level g))) dt False t)
         (lv_traps (g_level g))"
    using t by (simp add: e p)
qed

text \<open>
  Claim C5, as the code has it. Each tick moves every platform of the level by one call of
  \<^verbatim>\<open>applyMovement\<close> and every hazard that is not dormant by one call that is handed the
  platforms as already moved; a dormant hazard is left as it is. For an object with
  \<open>speed > 0\<close> and a non-zero \<open>(tx, ty)\<close> such a call keeps the recorded start fixed. If the
  remaining distance to the current target is at most \<open>speed * dt\<close>, the base is set to the
  target and the direction flips. Otherwise, for a platform and for a hazard whose step is
  not cancelled by the platform test, the base moves by \<open>speed * dt\<close> straight towards the
  target: direction and target stay, the distance moved is \<open>speed * dt\<close> and the remaining
  distance shrinks by exactly that, so it shrinks strictly when \<open>dt > 0\<close>. The position is
  the base plus the oscillation offset, and the base is the one the same object without
  oscillation would have.
\<close>

theorem pingpong_motion:
  assumes "moves_linearly obj"
  shows
   "lv_platforms (g_level (movement dt g)) = map (move_object [] dt True) (lv_platforms (g_level g)) \<and>
    lv_traps (g_level (movement dt g))
      = map (\<lambda>t. if dormant t then t
                  else move_object (map (move_object [] dt True) (lv_platforms (g_level g))) dt False t)
          (lv_traps (g_level g)) \<and>
    start_of (move_object pfs dt isPlatform obj) = start_of obj \<and>
    (dist_of obj \<le> moveStep_of dt obj \<longrightarrow>
       base_of (move_object pfs dt isPlatform obj) = target_of obj \<and>
       forward_of (move_object pfs dt isPlatform obj) = (\<not> forward_of obj)) \<and>
    (moveStep_of dt obj < dist_of obj \<and> (isPlatform \<or> \<not> willCollide pfs dt obj) \<longrightarrow>
       base_of (move_object pfs dt isPlatform obj)
         = (fst (base_of obj) + fst (delta_of dt obj), snd (base_of obj) + snd (delta_of dt obj)) \<and>
       forward_of (move_object pfs dt isPlatform obj) = forward_of obj \<and>
       target_of (move_object pfs dt isPlatform obj) = target_of obj \<and>
       (0 \<le> dt \<longrightarrow>
          hypot (fst (base_of (move_object pfs dt isPlatform obj)) - fst (base_of obj))
                (snd (base_of (move_object pfs dt isPlatform obj)) - snd (base_of obj))
            = moveStep_of dt obj \<and>
          dist_of (move_object pfs dt isPlatform obj) = dist_of obj - moveStep_of dt obj) \<and>
       (0 < dt \<longrightarrow> dist_of (move_object pfs dt isPlatform obj) < dist_of obj)) \<and>
    ob_x (move_object pfs dt isPlatform obj)
      = fst (base_of (move_object pfs dt isPlatform obj)) + fst (osc_offset dt obj) \<and>
    ob_y (move_object pfs dt isPlatform obj)
      = snd (base_of (move_object pfs dt isPlatform obj)) + snd (osc_offset dt obj) \<and>
    base_of (move_object pfs dt isPlatform obj)
      = base_of (move_object pfs dt isPlatform (obj\<lparr>oscSpeed := None\<rparr>))"
proof -
  let ?M = "move_object pfs dt isPlatform obj"
  have st: "start_of ?M = start_of obj" by (rule move_object_base(3) [OF assms])
  have snap: "dist_of obj \<le> moveStep_of dt obj \<longrightarrow>
       base_of ?M = target_of obj \<and> forward_of ?M = (\<not> forward_of obj)"
    using pingpong_snap [of obj dt pfs isPlatform] by (simp add: move_object_base(1,2) [OF assms])
  have adv: "moveStep_of dt obj < dist_of obj \<and> (isPlatform \<or> \<not> willCollide pfs dt obj) \<longrightarrow>
       base_of ?M = (fst (base_of obj) + fst (delta_of dt obj), snd (base_of obj) + snd (delta_of dt obj)) \<and>
       forward_of ?M = forward_of obj \<and> target_of ?M = target_of obj \<and>
       (0 \<le> dt \<longrightarrow>
          hypot (fst (base_of ?M) - fst (base_of obj)) (snd (base_of ?M) - snd (base_of obj))
            = moveStep_of dt obj \<and>
          dist_of ?M = dist_of obj - moveStep_of dt obj) \<and>
       (0 < dt \<longrightarrow> dist_of ?M < dist_of obj)"
  proof
    assume h: "moveStep_of dt obj < dist_of obj \<and> (isPlatform \<or> \<not> willCollide pfs dt obj)"
    then have far: "moveStep_of dt obj < dist_of obj" and free: "isPlatform \<or> \<not> willCollide pfs dt obj"
      by blast+
    note a = move_object_advance [OF assms far free]
    have "dist_of ?M < dist_of obj" if "0 < dt"
      using a(5) moveStep_pos [OF assms that] that by simp
    with a show "base_of ?M = (fst (base_of obj) + fst (delta_of dt obj), snd (base_of obj) + snd (delta_of dt obj)) \<and>
       forward_of ?M = forward_of obj \<and> target_of ?M = target_of obj \<and>
       (0 \<le> dt \<longrightarrow>
          hypot (fst (base_of ?M) - fst (base_of obj)) (snd (base_of ?M) - snd (base_of obj))
            = moveStep_of dt obj \<and>
          dist_of ?M = dist_of obj - moveStep_of dt obj) \<and>
       (0 < dt \<longrightarrow> dist_of ?M < dist_of obj)"
      by blast
  qed
  have xy: "ob_x ?M = fst (base_of ?M) + fst (osc_offset dt obj)"
    "ob_y ?M = snd (base_of ?M) + snd (osc_offset dt obj)"
    by (rule move_object_base(5,6) [OF assms])+
  have "moves_linearly (obj\<lparr>oscSpeed := None\<rparr>)"
    using assms by (simp add: moves_linearly_def shift_of_def)
  then have "base_of (move_object pfs dt isPlatform (obj\<lparr>oscSpeed := None\<rparr>))
      = base_of (pingpong pfs dt isPlatform (obj\<lparr>oscSpeed := None\<rparr>))"
    by (rule move_object_base(1))
  then have ni: "base_of ?M = base_of (move_object pfs dt isPlatform (obj\<lparr>oscSpeed := None\<rparr>))"
    by (simp add: pingpong_without_osc move_object_base(1) [OF assms])
  note lv = movement_objects [of dt g]
  from lv st snap adv xy ni show ?thesis by blast
qed

text \<open>
  The platform test of a hazard. For a hazard with \<open>speed > 0\<close> and a non-zero \<open>(tx, ty)\<close>,
  on a tick whose step \<open>speed * dt\<close> is shorter than the remaining distance, the box of
  \<open>width * scale\<close> by \<open>height * scale\<close> around the prospective base is tested against every
  platform. If one overlaps, the base stays where it is and the direction flips in this
  tick; if none does, the base advances and the direction stays.
\<close>

lemma hazard_step_tested:
  assumes "moves_linearly t" and "moveStep_of dt t < dist_of t"
  shows
   "(willCollide pfs dt t \<longleftrightarrow>
       (\<exists>pf \<in> set pfs. trap_box_hits t
          (fst (base_of t) + fst (delta_of dt t), snd (base_of t) + snd (delta_of dt t)) pf)) \<and>
    (willCollide pfs dt t \<longrightarrow>
       base_of (move_object pfs dt False t) = base_of t \<and>
       forward_of (move_object pfs dt False t) = (\<not> forward_of t)) \<and>
    (\<not> willCollide pfs dt t \<longrightarrow>
       base_of (move_object pfs dt False t)
         = (fst (base_of t) + fst (delta_of dt t), snd (base_of t) + snd (delta_of dt t)) \<and>
       forward_of (move_object pfs dt False t) = forward_of t) \<and>
    (\<not> dormant t \<longrightarrow> fst (move_trap pfs dt (done, p) t) = done @ [move_object pfs dt False t]) \<and>
    (dormant t \<longrightarrow> fst (move_trap pfs dt (done, p) t) = done @ [t])"
proof -
  have nf: "\<not> dist_of t \<le> moveStep_of dt t" using assms(2) by simp
  have a: "willCollide pfs dt t \<longleftrightarrow>
       (\<exists>pf \<in> set pfs. trap_box_hits t
          (fst (base_of t) + fst (delta_of dt t), snd (base_of t) + snd (delta_of dt t)) pf)"
    by (simp add: willCollide_def list_ex_iff)
  have b: "willCollide pfs dt t \<longrightarrow>
       base_of (move_object pfs dt False t) = base_of t \<and>
       forward_of (move_object pfs dt False t) = (\<not> forward_of t)"
    using pingpong_blocked [OF nf, of False pfs] by (simp add: move_object_base(1,2) [OF assms(1)])
  have c: "\<not> willCollide pfs dt t \<longrightarrow>
       base_of (move_object pfs dt False t)
         = (fst (base_of t) + fst (delta_of dt t), snd (base_of t) + snd (delta_of dt t)) \<and>
       forward_of (move_object pfs dt False t) = forward_of t"
    using pingpong_advance [OF nf, of False pfs] by (simp add: move_object_base(1,2) [OF assms(1)])
  have d: "\<not> dormant t \<longrightarrow> fst (move_trap pfs dt (done, p) t) = done @ [move_object pfs dt False t]"
    by (simp add: move_trap_def applyMovement_def Let_def)
  have e: "dormant t \<longrightarrow> fst (move_trap pfs dt (done, p) t) = done @ [t]"
    by (simp add: move_trap_def)
  from a b c d e show ?thesis by blast
qed

lemma script_facts:
  "moves_linearly (with_script (static_platform 300 100 30 30) 100 tx 0) \<longleftrightarrow> tx \<noteq> 0"
  "base_of (with_script (static_platform 300 100 30 30) 100 tx 0) = (300, 100)"
  "start_of (with_script (static_platform 300 100 30 30) 100 tx 0) = (300, 100)"
  "forward_of (with_script (static_platform 300 100 30 30) 100 tx 0)"
  "target_of (with_script (static_platform 300 100 30 30) 100 tx 0) = (300 + tx, 100)"
  "dist_of (with_script (static_platform 300 100 30 30) 100 tx 0) = \<bar>tx\<bar>"
  "moveStep_of dt (with_script (static_platform 300 100 30 30) 100 tx 0) = 100 * dt"
  "osc_offset dt (with_script (static_platform 300 100 30 30) 100 tx 0) = (0, 0)"
  "\<not> dormant (with_script (static_platform 300 100 30 30) 100 tx 0)"
proof -
  let ?T = "with_script (static_platform 300 100 30 30) 100 tx 0"
  show "moves_linearly ?T \<longleftrightarrow> tx \<noteq> 0"
    by (simp add: moves_linearly_def positive_def shift_of_def or_default_def with_script_def)
  show b: "base_of ?T = (300, 100)"
    by (simp add: base_of_def num_init_def with_script_def static_platform_def)
  show s: "start_of ?T = (300, 100)"
    by (simp add: start_of_def b) (simp add: num_init_def with_script_def static_platform_def)
  show f: "forward_of ?T"
    by (simp add: forward_of_def with_script_def static_platform_def)
  have sh: "shift_of ?T = (tx, 0)"
    by (simp add: shift_of_def or_default_def with_script_def)
  show t: "target_of ?T = (300 + tx, 100)"
    by (simp add: target_of_def f s sh)
  show "dist_of ?T = \<bar>tx\<bar>"
    by (simp add: dist_of_def t b hypot_zero_right)
  show "moveStep_of dt ?T = 100 * dt"
    by (simp add: moveStep_of_def num_init_def with_script_def)
  show "osc_offset dt ?T = (0, 0)"
    by (simp add: osc_offset_def oscillates_def positive_def with_script_def static_platform_def)
  show "\<not> dormant ?T"
    by (simp add: with_script_def static_platform_def)
qed

lemma script_delta:
  "tx \<noteq> 0 \<Longrightarrow> delta_of dt (with_script (static_platform 300 100 30 30) 100 tx 0)
     = (tx / \<bar>tx\<bar> * (100 * dt), 0)"
  by (simp add: delta_of_def script_facts)

lemma script_collides:
  "willCollide [static_platform 360 0 50 200] (1/2) (with_script (static_platform 300 100 30 30) 100 200 0)"
  by (simp add: willCollide_def script_facts script_delta trap_box_hits_def Let_def)
     (simp add: with_script_def static_platform_def or_default_def)

text \<open>
  Claim C5 as stated fails for a hazard that a platform blocks: with 200 units to go and
  a step of 50, it does not move and turns round.
\<close>

theorem pingpong_motion_counterexample:
  "moves_linearly (with_script (static_platform 300 100 30 30) 100 200 0) \<and>
   moveStep_of (1/2) (with_script (static_platform 300 100 30 30) 100 200 0) = 50 \<and>
   dist_of (with_script (static_platform 300 100 30 30) 100 200 0) = 200 \<and>
   base_of (move_object [static_platform 360 0 50 200] (1/2) False
              (with_script (static_platform 300 100 30 30) 100 200 0))
     = base_of (with_script (static_platform 300 100 30 30) 100 200 0) \<and>
   forward_of (with_script (static_platform 300 100 30 30) 100 200 0) \<and>
   \<not> forward_of (move_object [static_platform 360 0 50 200] (1/2) False
              (with_script (static_platform 300 100 30 30) 100 200 0))"
proof -
  let ?T = "with_script (static_platform 300 100 30 30) 100 200 0"
  have m: "moves_linearly ?T" by (simp add: script_facts)
  have nf: "\<not> dist_of ?T \<le> moveStep_of (1/2) ?T" by (simp add: script_facts)
  have "\<not> False" by simp
  with nf have "base_of (pingpong [static_platform 360 0 50 200] (1/2) False ?T) = base_of ?T \<and>
     forward_of (pingpong [static_platform 360 0 50 200] (1/2) False ?T) = (\<not> forward_of ?T)"
    using script_collides by (rule pingpong_blocked)
  then show ?thesis
    using m by (simp add: move_object_base(1,2) [OF m] script_facts)
qed

theorem pingpong_motion_witness:
  "moves_linearly (with_script (static_platform 300 100 200 20) 100 200 0) \<and>
   base_of (move_object [] (1/2) True (with_script (static_platform 300 100 200 20) 100 200 0))
     = (350, 100) \<and>
   forward_of (move_object [] (1/2) True (with_script (static_platform 300 100 200 20) 100 200 0)) \<and>
   dist_of (move_object [] (1/2) True (with_script (static_platform 300 100 200 20) 100 200 0)) = 150 \<and>
   ob_x (move_object [] (1/2) True (with_script (static_platform 300 100 200 20) 100 200 0)) = 350 \<and>
   base_of (move_object [] 2 True (with_script (static_platform 300 100 200 20) 100 200 0))
     = (500, 100) \<and>
   \<not> forward_of (move_object [] 2 True (with_script (static_platform 300 100 200 20) 100 200 0))"
proof -
  let ?T = "with_script (static_platform 300 100 200 20) 100 200 0"
  have m: "moves_linearly ?T"
    by (simp add: moves_linearly_def positive_def shift_of_def or_default_def with_script_def)
  have b: "base_of ?T = (300, 100)"
    by (simp add: base_of_def num_init_def with_script_def static_platform_def)
  have s: "start_of ?T = (300, 100)"
    by (simp add: start_of_def b) (simp add: num_init_def with_script_def static_platform_def)
  have f: "forward_of ?T"
    by (simp add: forward_of_def with_script_def static_platform_def)
  have sh: "shift_of ?T = (200, 0)"
    by (simp add: shift_of_def or_default_def with_script_def)
  have t: "target_of ?T = (500, 100)"
    by (simp add: target_of_def f s sh)
  have d: "dist_of ?T = 200"
    by (simp add: dist_of_def t b hypot_zero_right)
  have st: "moveStep_of dt ?T = 100 * dt" for dt
    by (simp add: moveStep_of_def num_init_def with_script_def)
  have dl: "delta_of (1/2) ?T = (50, 0)"
    by (simp add: delta_of_def t b d st)
  have os: "osc_offset (1/2) ?T = (0, 0)"
    by (simp add: osc_offset_def oscillates_def positive_def with_script_def static_platform_def)
  have h1: "moveStep_of (1/2) ?T < dist_of ?T \<and> (True \<or> \<not> willCollide [] (1/2) ?T)"
    by (simp add: d st)
  have h2: "dist_of ?T \<le> moveStep_of 2 ?T" by (simp add: d st)
  have p: "(0::real) \<le> 1/2" "(0::real) < 1/2" by simp_all
  note w1 = pingpong_motion [OF m, where pfs = "[]" and dt = "1/2" and isPlatform = True]
  from w1 h1 p have a1: "base_of (move_object [] (1/2) True ?T)
         = (fst (base_of ?T) + fst (delta_of (1/2) ?T), snd (base_of ?T) + snd (delta_of (1/2) ?T))"
    and a2: "forward_of (move_object [] (1/2) True ?T) = forward_of ?T"
    and a3: "dist_of (move_object [] (1/2) True ?T) = dist_of ?T - moveStep_of (1/2) ?T"
    and a4: "ob_x (move_object [] (1/2) True ?T)
      = fst (base_of (move_object [] (1/2) True ?T)) + fst (osc_offset (1/2) ?T)"
    by blast+
  note w2 = pingpong_motion [OF m, where pfs = "[]" and dt = 2 and isPlatform = True]
  from w2 h2 have c1: "base_of (move_object [] 2 True ?T) = target_of ?T"
    and c2: "forward_of (move_object [] 2 True ?T) = (\<not> forward_of ?T)"
    by blast+
  have r1: "base_of (move_object [] (1/2) True ?T) = (350, 100)" using a1 by (simp add: b dl)
  have r2: "forward_of (move_object [] (1/2) True ?T)" using a2 f by simp
  have r3: "dist_of (move_object [] (1/2) True ?T) = 150" using a3 by (simp add: d st)
  have r4: "ob_x (move_object [] (1/2) True ?T) = 350" using a4 by (simp add: r1 os)
  have r5: "base_of (move_object [] 2 True ?T) = (500, 100)" using c1 by (simp add: t)
  have r6: "\<not> forward_of (move_object [] 2 True ?T)" using c2 f by simp
  show ?thesis using m r1 r2 r3 r4 r5 r6 by blast
qed

lemma scripted_facts:
  assumes "baseX obj = None" "baseY obj = None" "startX obj = None" "startY obj = None"
    "movingForward obj = None" "0 < s" "tx \<noteq> 0"
  shows "moves_linearly (with_script obj s tx 0)"
    and "base_of (with_script obj s tx 0) = (ob_x obj, ob_y obj)"
    and "forward_of (with_script obj s tx 0)"
    and "target_of (with_script obj s tx 0) = (ob_x obj + tx, ob_y obj)"
    and "dist_of (with_script obj s tx 0) = \<bar>tx\<bar>"
    and "moveStep_of dt (with_script obj s tx 0) = s * dt"
    and "delta_of dt (with_script obj s tx 0) = (tx / \<bar>tx\<bar> * (s * dt), 0)"
proof -
  let ?T = "with_script obj s tx 0"
  show "moves_linearly ?T"
    using assms(6,7)
    by (simp add: moves_linearly_def positive_def shift_of_def or_default_def with_script_def)
  show b: "base_of ?T = (ob_x obj, ob_y obj)"
    using assms(1,2) by (simp add: base_of_def num_init_def with_script_def)
  have st: "start_of ?T = (ob_x obj, ob_y obj)"
    using assms(3,4) by (simp add: start_of_def b) (simp add: num_init_def with_script_def)
  show f: "forward_of ?T"
    using assms(5) by (simp add: forward_of_def with_script_def)
  have sh: "shift_of ?T = (tx, 0)"
    by (simp add: shift_of_def or_default_def with_script_def)
  show t: "target_of ?T = (ob_x obj + tx, ob_y obj)"
    by (simp add: target_of_def f st sh)
  show d: "dist_of ?T = \<bar>tx\<bar>"
    by (simp add: dist_of_def t b hypot_zero_right)
  show m: "moveStep_of dt ?T = s * dt"
    by (simp add: moveStep_of_def num_init_def with_script_def)
  show "delta_of dt ?T = (tx / \<bar>tx\<bar> * (s * dt), 0)"
    by (simp add: delta_of_def t b d m)
qed

lemma box_of_script:
  "trap_box_hits (with_script obj s tx ty) = trap_box_hits obj"
  "aabb_hits (with_script obj s tx ty) = aabb_hits obj"
  by (intro ext, simp add: trap_box_hits_def with_script_def)
     (intro ext, simp add: aabb_hits_def rotation_of_def with_script_def)

text \<open>
  Claim C8. The claim is what the code sets out to do, and the code misses it in two
  places. First, the platform test stands in the branch of a step that does not reach the
  target (lines 3689-3725); a step that reaches the target is committed without any test.
  A hazard of 30 by 30 at \<open>(300, 100)\<close> with speed 300 and \<open>tx = 5\<close> is put on its target
  \<open>(305, 100)\<close> by a tick of 1/60 s although its box there overlaps the platform at
  \<open>317..367\<close> by \<open>0..200\<close>, which its box at \<open>(300, 100)\<close> does not; the same hazard with
  \<open>tx = 200\<close>, making the same step of 5 towards the same platform, is stopped and turned
  round. Second, the tested box is \<open>width * scale\<close> by \<open>height * scale\<close> whatever the rotation
  of the hazard. A strip of 100 by 10 turned by 90 degrees covers \<open>300..310\<close> by \<open>50..150\<close>
  at \<open>(305, 100)\<close>: the step to there is committed although that box overlaps the platform
  at \<open>307..357\<close> by \<open>120..170\<close>, and it is cancelled for the platform at \<open>340..390\<close> by
  \<open>90..110\<close>, which that box does not touch.
\<close>

theorem hazard_step_into_platform:
  "positive (ob_speed (with_script (static_platform 300 100 30 30) 300 5 0)) \<and>
   shift_of (with_script (static_platform 300 100 30 30) 300 5 0) = (5, 0) \<and>
   \<not> dormant (with_script (static_platform 300 100 30 30) 300 5 0) \<and>
   base_of (with_script (static_platform 300 100 30 30) 300 5 0) = (300, 100) \<and>
   \<not> aabb_hits (with_script (static_platform 300 100 30 30) 300 5 0) (300, 100)
       (static_platform 317 0 50 200) \<and>
   aabb_hits (with_script (static_platform 300 100 30 30) 300 5 0) (305, 100)
       (static_platform 317 0 50 200) \<and>
   base_of (move_object [static_platform 317 0 50 200] (1/60) False
              (with_script (static_platform 300 100 30 30) 300 5 0)) = (305, 100) \<and>
   positive (ob_speed (with_script (static_platform 300 100 30 30) 300 200 0)) \<and>
   shift_of (with_script (static_platform 300 100 30 30) 300 200 0) = (200, 0) \<and>
   base_of (with_script (static_platform 300 100 30 30) 300 200 0) = (300, 100) \<and>
   forward_of (with_script (static_platform 300 100 30 30) 300 200 0) \<and>
   base_of (move_object [static_platform 317 0 50 200] (1/60) False
              (with_script (static_platform 300 100 30 30) 300 200 0)) = (300, 100) \<and>
   \<not> forward_of (move_object [static_platform 317 0 50 200] (1/60) False
              (with_script (static_platform 300 100 30 30) 300 200 0)) \<and>
   positive (ob_speed (with_script ((static_platform 300 100 100 10)\<lparr>rotation := Some 90\<rparr>) 300 200 0)) \<and>
   shift_of (with_script ((static_platform 300 100 100 10)\<lparr>rotation := Some 90\<rparr>) 300 200 0) = (200, 0) \<and>
   \<not> dormant (with_script ((static_platform 300 100 100 10)\<lparr>rotation := Some 90\<rparr>) 300 200 0) \<and>
   base_of (with_script ((static_platform 300 100 100 10)\<lparr>rotation := Some 90\<rparr>) 300 200 0) = (300, 100) \<and>
   \<not> aabb_hits (with_script ((static_platform 300 100 100 10)\<lparr>rotation := Some 90\<rparr>) 300 200 0)
       (300, 100) (static_platform 307 120 50 50) \<and>
   aabb_hits (with_script ((static_platform 300 100 100 10)\<lparr>rotation := Some 90\<rparr>) 300 200 0)
       (305, 100) (static_platform 307 120 50 50) \<and>
   base_of (move_object [static_platform 307 120 50 50] (1/60) False
              (with_script ((static_platform 300 100 100 10)\<lparr>rotation := Some 90\<rparr>) 300 200 0))
     = (305, 100) \<and>
   \<not> aabb_hits (with_script ((static_platform 300 100 100 10)\<lparr>rotation := Some 90\<rparr>) 300 200 0)
       (305, 100) (static_platform 340 90 50 20) \<and>
   base_of (move_object [static_platform 340 90 50 20] (1/60) False
              (with_script ((static_platform 300 100 100 10)\<lparr>rotation := Some 90\<rparr>) 300 200 0))
     = (300, 100)"
proof -
  let ?O = "static_platform 300 100 30 30"
  let ?T = "with_script ?O 300 5 0"
  let ?U = "with_script ?O 300 200 0"
  let ?F = "static_platform 317 0 50 200"
  let ?Q = "(static_platform 300 100 100 10)\<lparr>rotation := Some 90\<rparr>"
  let ?R = "with_script ?Q 300 200 0"
  let ?G = "static_platform 307 120 50 50"
  let ?H = "static_platform 340 90 50 20"
  have o: "baseX ?O = None" "baseY ?O = None" "startX ?O = None" "startY ?O = None"
    "movingForward ?O = None" "ob_x ?O = 300" "ob_y ?O = 100"
    by (simp_all add: static_platform_def)
  have q: "baseX ?Q = None" "baseY ?Q = None" "startX ?Q = None" "startY ?Q = None"
    "movingForward ?Q = None" "ob_x ?Q = 300" "ob_y ?Q = 100"
    by (simp_all add: static_platform_def)
  have p: "(0::real) < 300" "(5::real) \<noteq> 0" "(200::real) \<noteq> 0" by simp_all
  note t = scripted_facts [OF o(1-5) p(1,2)]
  note u = scripted_facts [OF o(1-5) p(1,3)]
  note r = scripted_facts [OF q(1-5) p(1,3)]
  have nd: "\<not> dormant ?T" "\<not> dormant ?R"
    by (simp_all add: with_script_def static_platform_def)
  have rot: "rotation_of ?O = 0" "rotation_of ?Q = 90"
    by (simp_all add: rotation_of_def js_rem_def static_platform_def)
  have a1: "\<not> aabb_hits ?T (300, 100) ?F" "aabb_hits ?T (305, 100) ?F"
    by (simp_all add: box_of_script aabb_hits_def rot Let_def)
       (simp_all add: static_platform_def or_default_def)
  have "dist_of ?T \<le> moveStep_of (1/60) ?T" by (simp add: t)
  then have "base_of (pingpong [?F] (1/60) False ?T) = target_of ?T"
    using pingpong_snap by blast
  then have a2: "base_of (move_object [?F] (1/60) False ?T) = (305, 100)"
    by (simp add: move_object_base(1) [OF t(1)] t o)
  have nf: "\<not> dist_of ?U \<le> moveStep_of (1/60) ?U" by (simp add: u)
  have cu: "willCollide [?F] (1/60) ?U"
    by (simp add: willCollide_def u o box_of_script trap_box_hits_def Let_def)
       (simp add: static_platform_def or_default_def)
  have "\<not> False" by simp
  with nf have "base_of (pingpong [?F] (1/60) False ?U) = base_of ?U \<and>
     forward_of (pingpong [?F] (1/60) False ?U) = (\<not> forward_of ?U)"
    using cu by (rule pingpong_blocked)
  then have b1: "base_of (move_object [?F] (1/60) False ?U) = (300, 100)"
    "\<not> forward_of (move_object [?F] (1/60) False ?U)"
    by (simp_all add: move_object_base(1,2) [OF u(1)] u o)
  have c1: "\<not> aabb_hits ?R (300, 100) ?G" "aabb_hits ?R (305, 100) ?G" "\<not> aabb_hits ?R (305, 100) ?H"
    by (simp_all add: box_of_script aabb_hits_def rot Let_def)
       (simp_all add: static_platform_def or_default_def)
  have nr: "\<not> dist_of ?R \<le> moveStep_of (1/60) ?R" by (simp add: r)
  have cg: "\<not> willCollide [?G] (1/60) ?R"
    by (simp add: willCollide_def r q box_of_script trap_box_hits_def Let_def)
       (simp add: static_platform_def or_default_def)
  have ch: "willCollide [?H] (1/60) ?R"
    by (simp add: willCollide_def r q box_of_script trap_box_hits_def Let_def)
       (simp add: static_platform_def or_default_def)
  have "False \<or> \<not> willCollide [?G] (1/60) ?R" using cg by simp
  with nr have "base_of (pingpong [?G] (1/60) False ?R)
     = (fst (base_of ?R) + fst (delta_of (1/60) ?R), snd (base_of ?R) + snd (delta_of (1/60) ?R))
     \<and> forward_of (pingpong [?G] (1/60) False ?R) = forward_of ?R"
    by (rule pingpong_advance)
  then have c2: "base_of (move_object [?G] (1/60) False ?R) = (305, 100)"
    by (simp add: move_object_base(1) [OF r(1)] r q)
  have "\<not> False" by simp
  with nr have "base_of (pingpong [?H] (1/60) False ?R) = base_of ?R \<and>
     forward_of (pingpong [?H] (1/60) False ?R) = (\<not> forward_of ?R)"
    using ch by (rule pingpong_blocked)
  then have c3: "base_of (move_object [?H] (1/60) False ?R) = (300, 100)"
    by (simp add: move_object_base(1) [OF r(1)] r q)
  have bt: "base_of ?T = (300, 100)" "base_of ?U = (300, 100)" "base_of ?R = (300, 100)"
    by (simp_all add: t u r o q)
  have sp: "positive (ob_speed ?T)" "shift_of ?T = (5, 0)"
    "positive (ob_speed ?U)" "shift_of ?U = (200, 0)"
    "positive (ob_speed ?R)" "shift_of ?R = (200, 0)"
    by (simp_all add: positive_def shift_of_def or_default_def with_script_def)
  show ?thesis
    using sp(1,2) nd(1) bt(1) a1 a2 sp(3,4) bt(2) u(3) b1 sp(5,6) nd(2) bt(3) c1(1,2) c2 c1(3) c3
    by blast
qed

section \<open>Properties of triggers and dormancy\<close>

lemma length_set_dormant [simp]: "length (set_dormant v ts j) = length ts"
  by (simp add: set_dormant_def)




























text \<open>Level load.\<close>

lemma mark_dormant_length [simp]: "length (mark_dormant ts b) = length ts"
  by (simp add: mark_dormant_def)















end
